theory Spec2Isabelle
  imports Complex_Main "HOL-Library.AList" "HOL-Library.Word"
begin

section \<open>Values and errors of the host language\<close>

text \<open>
  Numbers of the program are modelled as real numbers: rounding, infinities and NaN of
  double precision arithmetic are outside the model, and a quotient whose divisor is zero
  (\<open>0\<close> in HOL, \<open>Infinity\<close> or \<open>NaN\<close> in the program) is excluded by a hypothesis
  wherever a result depends on it. Exceptions are values of \<open>js_error\<close>; a function
  that may throw returns \<open>js_error + 'a\<close>.
\<close>

datatype js_error = TypeError | RangeError | IndexSizeError

text \<open>Sequencing: the second step runs on the result of the first unless that threw.\<close>

definition and_then :: "js_error + 'a \<Rightarrow> ('a \<Rightarrow> js_error + 'b) \<Rightarrow> js_error + 'b" where
  "and_then r f = (case r of Inl e \<Rightarrow> Inl e | Inr a \<Rightarrow> f a)"

text \<open>\<open>String.prototype.split\<close> with a separator of one character.\<close>

fun split_on :: "char \<Rightarrow> string \<Rightarrow> string list" where
  "split_on sep [] = [[]]"
| "split_on sep (c # cs) =
     (if c = sep then [] # split_on sep cs
      else (case split_on sep cs of [] \<Rightarrow> [[c]] | w # ws \<Rightarrow> (c # w) # ws))"

text \<open>\<open>Array.prototype.indexOf\<close>: the first position of an element, \<open>None\<close> for \<open>-1\<close>.\<close>

fun indexOf :: "'a list \<Rightarrow> 'a \<Rightarrow> nat option" where
  "indexOf [] a = None"
| "indexOf (b # bs) a = (if b = a then Some 0 else map_option Suc (indexOf bs a))"

text \<open>\<open>xs.splice(i, 1)\<close>: the list without its element at position \<open>i\<close>.\<close>

definition splice1 :: "nat \<Rightarrow> 'a list \<Rightarrow> 'a list" where
  "splice1 i xs = take i xs @ drop (Suc i) xs"

section \<open>Language detection from a file name\<close>













section \<open>Line wrapping\<close>

text \<open>
  \<open>wrapText(ctx, text, maxWidth)\<close>. The context enters only through
  \<open>ctx.measureText(s).width\<close>, the parameter \<open>measureText\<close>. The body of the \<open>forEach\<close> is
  \<open>wrap_step\<close> on the pair of \<open>lines\<close> and \<open>currentLine\<close>; the empty string is the
  only falsy string.
\<close>

definition wrap_step ::
  "(string \<Rightarrow> real) \<Rightarrow> real \<Rightarrow> string list \<times> string \<Rightarrow> string \<Rightarrow> string list \<times> string" where
  "wrap_step measureText maxWidth st word =
     (let lines = fst st; currentLine = snd st;
          testLine = currentLine @ (if currentLine \<noteq> [] then '' '' else []) @ word
      in if measureText testLine > maxWidth \<and> currentLine \<noteq> []
         then (lines @ [currentLine], word)
         else (lines, testLine))"

text \<open>After the loop: \<open>if (currentLine) lines.push(currentLine)\<close>.\<close>

definition wrap_finish :: "string list \<times> string \<Rightarrow> string list" where
  "wrap_finish st = (if snd st \<noteq> [] then fst st @ [snd st] else fst st)"

definition wrapText :: "(string \<Rightarrow> real) \<Rightarrow> string \<Rightarrow> real \<Rightarrow> string list" where
  "wrapText measureText text maxWidth =
     wrap_finish (foldl (wrap_step measureText maxWidth) ([], []) (split_on (CHR '' '') text))"

text \<open>
  The specification's wording of greedy wrapping, on a list of words: a line takes the
  next word while the line with that word measures at most the wrap width; otherwise
  the line is committed and the word starts the next line.
\<close>

fun greedy_lines :: "(string \<Rightarrow> real) \<Rightarrow> real \<Rightarrow> string \<Rightarrow> string list \<Rightarrow> string list" where
  "greedy_lines measureText maxWidth line [] = [line]"
| "greedy_lines measureText maxWidth line (w # ws) =
     (if measureText (line @ '' '' @ w) \<le> maxWidth
      then greedy_lines measureText maxWidth (line @ '' '' @ w) ws
      else line # greedy_lines measureText maxWidth w ws)"

definition spec_wrap :: "(string \<Rightarrow> real) \<Rightarrow> real \<Rightarrow> string list \<Rightarrow> string list" where
  "spec_wrap measureText maxWidth words =
     (case words of [] \<Rightarrow> [] | w # ws \<Rightarrow> greedy_lines measureText maxWidth w ws)"

text \<open>A committed line is acceptable when it fits the wrap width or is one of the words.\<close>

definition line_ok :: "(string \<Rightarrow> real) \<Rightarrow> real \<Rightarrow> string set \<Rightarrow> string \<Rightarrow> bool" where
  "line_ok m W A l = (m l \<le> W \<or> l \<in> A)"

section \<open>The drawing surface\<close>

text \<open>
  \<open>dims\<close> is an object with a width and a height; an image has both and its source.
  Images held by the program were stored by their \<open>onload\<close> handlers, so they are loaded.
\<close>

record dims =
  width :: real
  height :: real

record image = dims +
  src :: string

text \<open>
  Strings that the program assembles from numbers keep their parts: the \<open>font\<close> shorthand
  \<open>${style} ${weight} ${size}px ${family}\<close> is a record, \<open>rgba(r, g, b, alpha)\<close> built by
  \<open>hexToRgba\<close> is \<open>Rgba hex alpha\<close> (\<open>ShadowColorRgba hex alpha\<close> when it is assigned
  to \<open>shadowColor\<close>), \<open>blur(${n}px)\<close> is \<open>Blur n\<close>. A gradient is its axis and the
  colour stops added to it, in the order they were added.
\<close>

record font =
  fontStyle :: string
  fontWeight :: string
  fontSizePx :: real
  fontFamily :: string

datatype fill_style =
    Color string
  | Rgba string real
  | LinearGradient real real real real "(real \<times> string) list"

datatype filter_value = FilterNone | Blur real

text \<open>Assignments to properties of the 2D context.\<close>

datatype ctx_prop =
    FillStyle fill_style
  | StrokeStyle string
  | Filter filter_value
  | GlobalAlpha real
  | LineWidth real
  | ShadowColor string
  | ShadowColorRgba string real
  | ShadowBlur real
  | ShadowOffsetX real
  | ShadowOffsetY real
  | TextAlign string
  | TextBaseline string
  | Font font

text \<open>
  Calls of the 2D context. The state of a surface is the list of the operations done on
  it since it was last reset: every pixel and every context property is a function of
  that list.
\<close>

datatype canvas_op =
    Set ctx_prop
  | ClearRect real real real real
  | FillRect real real real real
  | DrawImage image real real real real
  | DrawImageCrop image real real real real real real real real
  | PutImageData "8 word list" real real
  | Save
  | Restore
  | Translate real real
  | Rotate real
  | Transform real real real real real real
  | BeginPath
  | RoundRect real real real real real
  | MoveTo real real
  | LineTo real real
  | QuadraticCurveTo real real real real
  | ClosePath
  | Fill
  | Clip
  | Stroke
  | FillText string real real

text \<open>
  A canvas element with its context. Assigning \<open>width\<close> or \<open>height\<close> of the element
  resets the bitmap and the context; the CSS size is kept apart (\<open>None\<close> while unset).
\<close>

record canvas =
  canvas_width :: real
  canvas_height :: real
  style_width :: "real option"
  style_height :: "real option"
  ops :: "canvas_op list"

definition draw :: "canvas \<Rightarrow> canvas_op list \<Rightarrow> canvas" where
  "draw c os = c\<lparr>ops := ops c @ os\<rparr>"

definition set_canvas_width :: "real \<Rightarrow> canvas \<Rightarrow> canvas" where
  "set_canvas_width w c = c\<lparr>canvas_width := w, ops := []\<rparr>"

definition set_canvas_height :: "real \<Rightarrow> canvas \<Rightarrow> canvas" where
  "set_canvas_height h c = c\<lparr>canvas_height := h, ops := []\<rparr>"

text \<open>
  What the program asks of the browser and of the 3D renderer, which is not part of
  these sources: reading pixels back (\<open>getImageData(0, 0, w, h)\<close>, which throws for an
  empty rectangle), measuring a string with the context's current font, the function
  \<open>renderThreeJSForScreenshot\<close> when it is defined, and the flag \<open>phoneModelLoaded\<close>.
\<close>

record env =
  getImageData :: "canvas \<Rightarrow> real \<Rightarrow> real \<Rightarrow> js_error + 8 word list"
  measureText :: "canvas \<Rightarrow> string \<Rightarrow> real"
  renderThreeJSForScreenshot :: "(canvas \<Rightarrow> real \<Rightarrow> real \<Rightarrow> nat \<Rightarrow> js_error + canvas) option"
  phoneModelLoaded :: bool

section \<open>Settings of a screenshot entry\<close>

record gradient_stop =
  stop_color :: string
  stop_position :: real

record gradient_config =
  angle :: real
  stops :: "gradient_stop list"

record background_config =
  bg_type :: string
  gradient :: gradient_config
  solid :: string
  bg_image :: "image option"
  imageFit :: string
  imageBlur :: real
  overlayColor :: string
  overlayOpacity :: real
  noise :: bool
  noiseIntensity :: real

record shadow_config =
  shadow_enabled :: bool
  shadow_color :: string
  shadow_blur :: real
  shadow_opacity :: real
  shadow_x :: real
  shadow_y :: real

record frame_config =
  frame_enabled :: bool
  frame_color :: string
  frame_width :: real
  frame_opacity :: real

text \<open>
  \<open>cornerRadius\<close>, \<open>shadow\<close> and \<open>frame\<close> are read behind guards (\<open>|| 0\<close>, \<open>&&\<close>), so they
  may be absent; \<open>use3D\<close> is read as \<open>settings.use3D || false\<close> and \<open>device3D\<close> behind
  \<open>?.\<close> and \<open>&&\<close>. The fields \<open>x\<close> and
  \<open>y\<close> of the program are \<open>pos_x\<close> and \<open>pos_y\<close> here, and the fields of \<open>shadow\<close> and
  \<open>frame\<close> carry the name of their object as a prefix.
\<close>

record screenshot_settings =
  scale :: real
  pos_x :: real
  pos_y :: real
  rotation :: real
  perspective :: real
  cornerRadius :: "real option"
  use3D :: bool
  device3D :: "string option"
  shadow :: "shadow_config option"
  frame :: "frame_config option"

text \<open>
  Text settings. \<open>headlineEnabled\<close> is read as \<open>!== false\<close>, the language maps behind a
  truthiness test and the current languages as \<open>|| 'en'\<close>, so they may be absent. The
  language maps are objects: association lists in insertion order.
\<close>

record text_config =
  headlineEnabled :: "bool option"
  headlines :: "(string \<times> string) list option"
  headlineLanguages :: "string list"
  currentHeadlineLang :: "string option"
  headlineFont :: string
  headlineSize :: real
  headlineWeight :: string
  headlineItalic :: bool
  headlineUnderline :: bool
  headlineStrikethrough :: bool
  headlineColor :: string
  position :: string
  offsetY :: real
  lineHeight :: real
  subheadlineEnabled :: bool
  subheadlines :: "(string \<times> string) list option"
  subheadlineLanguages :: "string list"
  currentSubheadlineLang :: "string option"
  subheadlineFont :: "string option"
  subheadlineSize :: real
  subheadlineWeight :: "string option"
  subheadlineItalic :: bool
  subheadlineUnderline :: bool
  subheadlineStrikethrough :: bool
  subheadlineColor :: string
  subheadlineOpacity :: real

section \<open>Rendering\<close>

subsection \<open>Background\<close>

text \<open>
  The axis of the gradient: \<open>x1, y1, x2, y2\<close> of \<open>drawBackgroundToContext\<close>, from the
  angle in degrees. Numbers are reals here, and \<open>cos\<close> and \<open>sin\<close> stand for \<open>Math.cos\<close>
  and \<open>Math.sin\<close>, which the language leaves to the engine to approximate in double
  precision. What holds of the real functions through exactness only, such as their
  period, is no property of the program: in doubles the axis for an angle and for the
  angle plus 360 differs in the last digits, and by whole pixels for very large angles.
\<close>

definition gradient_axis :: "dims \<Rightarrow> real \<Rightarrow> real \<times> real \<times> real \<times> real" where
  "gradient_axis dims angleDegrees =
     (let angle = angleDegrees * pi / 180 in
      (width dims / 2 - cos angle * width dims,
       height dims / 2 - sin angle * height dims,
       width dims / 2 + cos angle * width dims,
       height dims / 2 + sin angle * height dims))"

text \<open>
  \<open>gradient.addColorStop(stop.position / 100, stop.color)\<close> for every stop, in the order
  of the array; the call throws \<open>IndexSizeError\<close> for an offset outside \<open>[0, 1]\<close>. Colour
  strings are taken to be colours the browser can parse.
\<close>

definition addColorStops :: "gradient_stop list \<Rightarrow> js_error + (real \<times> string) list" where
  "addColorStops ss =
     (if list_all (\<lambda>s. 0 \<le> stop_position s / 100 \<and> stop_position s / 100 \<le> 1) ss
      then Inr (map (\<lambda>s. (stop_position s / 100, stop_color s)) ss)
      else Inl IndexSizeError)"

text \<open>
  The image branch: source rectangle \<open>sx, sy, sw, sh\<close> and destination rectangle
  \<open>dx, dy, dw, dh\<close> for the two fits.
\<close>

definition cover_source :: "dims \<Rightarrow> image \<Rightarrow> real \<times> real \<times> real \<times> real" where
  "cover_source dims img =
     (let imgRatio = width img / height img; canvasRatio = width dims / height dims in
      if imgRatio > canvasRatio
      then (let sw = height img * canvasRatio in ((width img - sw) / 2, 0, sw, height img))
      else (let sh = width img / canvasRatio in (0, (height img - sh) / 2, width img, sh)))"

definition contain_dest :: "dims \<Rightarrow> image \<Rightarrow> real \<times> real \<times> real \<times> real" where
  "contain_dest dims img =
     (let imgRatio = width img / height img; canvasRatio = width dims / height dims in
      if imgRatio > canvasRatio
      then (let dh = width dims / imgRatio in (0, (height dims - dh) / 2, width dims, dh))
      else (let dw = height dims * imgRatio in ((width dims - dw) / 2, 0, dw, height dims)))"

definition drawBackgroundToContext :: "canvas \<Rightarrow> dims \<Rightarrow> background_config \<Rightarrow> js_error + canvas" where
  "drawBackgroundToContext context dims bg =
     (if bg_type bg = ''gradient'' then
        (case gradient_axis dims (angle (gradient bg)) of (x1, y1, x2, y2) \<Rightarrow>
           (case addColorStops (stops (gradient bg)) of
              Inl e \<Rightarrow> Inl e
            | Inr colorStops \<Rightarrow>
                Inr (draw context
                  [Set (FillStyle (LinearGradient x1 y1 x2 y2 colorStops)),
                   FillRect 0 0 (width dims) (height dims)])))
      else if bg_type bg = ''solid'' then
        Inr (draw context [Set (FillStyle (Color (solid bg))), FillRect 0 0 (width dims) (height dims)])
      else if bg_type bg = ''image'' then
        (case bg_image bg of
           None \<Rightarrow> Inr context
         | Some img \<Rightarrow>
             (case (if imageFit bg = ''cover'' then cover_source dims img
                    else (0, 0, width img, height img)) of (sx, sy, sw, sh) \<Rightarrow>
              case (if imageFit bg = ''contain'' then contain_dest dims img
                    else (0, 0, width dims, height dims)) of (dx, dy, dw, dh) \<Rightarrow>
                Inr (draw context
                  ((if imageFit bg = ''contain''
                    then [Set (FillStyle (Color ''#000'')), FillRect 0 0 (width dims) (height dims)]
                    else []) @
                   (if imageBlur bg > 0 then [Set (Filter (Blur (imageBlur bg)))] else []) @
                   [DrawImageCrop img sx sy sw sh dx dy dw dh, Set (Filter FilterNone)] @
                   (if overlayOpacity bg > 0
                    then [Set (FillStyle (Color (overlayColor bg))),
                          Set (GlobalAlpha (overlayOpacity bg / 100)),
                          FillRect 0 0 (width dims) (height dims),
                          Set (GlobalAlpha 1)]
                    else [])))))
      else Inr context)"

subsection \<open>Noise\<close>

text \<open>
  A store into a \<open>Uint8ClampedArray\<close> converts the number with \<open>ToUint8Clamp\<close>: clamped
  to \<open>[0, 255]\<close> and rounded to the nearest integer, ties to the even one.
\<close>

definition roundTiesToEven :: "real \<Rightarrow> int" where
  "roundTiesToEven v =
     (let f = \<lfloor>v\<rfloor> in
      if v - of_int f < 1 / 2 then f
      else if 1 / 2 < v - of_int f then f + 1
      else if even f then f else f + 1)"

definition toUint8Clamp :: "real \<Rightarrow> 8 word" where
  "toUint8Clamp v = (if v \<le> 0 then 0 else if 255 \<le> v then 255 else word_of_int (roundTiesToEven v))"

text \<open>
  \<open>data[j] = Math.max(0, Math.min(255, data[j] + noise))\<close>, with \<open>delta\<close> for the
  local \<open>noise\<close>; a store past the end of a typed array is ignored.
\<close>

definition noisy_value :: "8 word \<Rightarrow> real \<Rightarrow> 8 word" where
  "noisy_value b delta = toUint8Clamp (max 0 (min 255 (real (unat b) + delta)))"

definition noisy_channel :: "8 word list \<Rightarrow> nat \<Rightarrow> real \<Rightarrow> 8 word list" where
  "noisy_channel data j delta =
     (if j < length data then data[j := noisy_value (data ! j) delta] else data)"

text \<open>The three stores of one iteration, at \<open>i\<close>, \<open>i + 1\<close> and \<open>i + 2\<close>.\<close>

definition noisy_pixel :: "8 word list \<Rightarrow> nat \<Rightarrow> real \<Rightarrow> 8 word list" where
  "noisy_pixel data i delta =
     noisy_channel (noisy_channel (noisy_channel data i delta) (i + 1) delta) (i + 2) delta"

lemma length_noisy_channel: "length (noisy_channel data j delta) = length data"
  by (simp add: noisy_channel_def)

lemma length_noisy_pixel: "length (noisy_pixel data i delta) = length data"
  by (simp add: noisy_pixel_def length_noisy_channel)

text \<open>
  \<open>const noise = (Math.random() - 0.5) * 255 * noiseAmount\<close>, where \<open>random k\<close> is the
  value of the \<open>k\<close>-th call of \<open>Math.random()\<close>.
\<close>

definition noise_delta :: "(nat \<Rightarrow> real) \<Rightarrow> real \<Rightarrow> nat \<Rightarrow> real" where
  "noise_delta random noiseAmount k = (random k - 0.5) * 255 * noiseAmount"

text \<open>
  The loop \<open>for (let i = 0; i < data.length; i += 4)\<close>, which makes one call of
  \<open>Math.random()\<close> per iteration; \<open>k\<close> counts the calls made so far.
\<close>

function noise_loop :: "(nat \<Rightarrow> real) \<Rightarrow> real \<Rightarrow> nat \<Rightarrow> nat \<Rightarrow> 8 word list \<Rightarrow> 8 word list" where
  "noise_loop random noiseAmount k i data =
     (if i < length data then
        noise_loop random noiseAmount (Suc k) (i + 4)
          (noisy_pixel data i (noise_delta random noiseAmount k))
      else data)"
  by pat_completeness auto
termination
  by (relation "measure (\<lambda>(random, noiseAmount, k, i, data). length data - i)")
     (simp_all add: length_noisy_pixel)

declare noise_loop.simps [simp del]

definition drawNoiseToContext ::
  "(nat \<Rightarrow> real) \<Rightarrow> env \<Rightarrow> canvas \<Rightarrow> dims \<Rightarrow> real \<Rightarrow> js_error + canvas" where
  "drawNoiseToContext random env context dims intensity =
     (case getImageData env context (width dims) (height dims) of
        Inl e \<Rightarrow> Inl e
      | Inr data \<Rightarrow>
          Inr (draw context [PutImageData (noise_loop random (intensity / 100) 0 0 data) 0 0]))"

subsection \<open>Screenshot\<close>

text \<open>
  The placement of the screenshot in \<open>drawScreenshotToContext\<close>: \<open>(x, y, imgWidth,
  imgHeight)\<close>.
\<close>

definition screenshot_box :: "dims \<Rightarrow> image \<Rightarrow> screenshot_settings \<Rightarrow> real \<times> real \<times> real \<times> real" where
  "screenshot_box dims img settings =
     (let scale' = scale settings / 100;
          imgWidth0 = width dims * scale';
          imgHeight0 = (height img / width img) * imgWidth0;
          imgHeight = (if imgHeight0 > height dims * scale' then height dims * scale' else imgHeight0);
          imgWidth = (if imgHeight0 > height dims * scale'
                      then (width img / height img) * imgHeight else imgWidth0);
          x = (width dims - imgWidth) * (pos_x settings / 100);
          y = (height dims - imgHeight) * (pos_y settings / 100)
      in (x, y, imgWidth, imgHeight))"

text \<open>Rotation and shear about the centre of the box, used for the image and for the frame.\<close>

definition box_transform :: "screenshot_settings \<Rightarrow> real \<Rightarrow> real \<Rightarrow> canvas_op list" where
  "box_transform settings centerX centerY =
     [Translate centerX centerY] @
     (if rotation settings \<noteq> 0 then [Rotate (rotation settings * pi / 180)] else []) @
     (if perspective settings \<noteq> 0 then [Transform 1 (perspective settings * 0.01) 0 1 0 0] else []) @
     [Translate (- centerX) (- centerY)]"

text \<open>\<open>Math.round(v).toString(16).padStart(2, '0')\<close>.\<close>

definition hex_digit :: "nat \<Rightarrow> char" where
  "hex_digit n = ''0123456789abcdef'' ! n"

fun hex_digits :: "nat \<Rightarrow> string" where
  "hex_digits n = (if n < 16 then [hex_digit n] else hex_digits (n div 16) @ [hex_digit (n mod 16)])"

declare hex_digits.simps [simp del]

definition round_hex2 :: "real \<Rightarrow> string" where
  "round_hex2 v =
     (let n = \<lfloor>v + 1 / 2\<rfloor>;
          s = (if n < 0 then ''-'' @ hex_digits (nat (- n)) else hex_digits (nat n))
      in replicate (2 - length s) (CHR ''0'') @ s)"

text \<open>\<open>roundRect\<close> throws \<open>RangeError\<close> for a negative radius.\<close>

definition roundRect :: "real \<Rightarrow> real \<Rightarrow> real \<Rightarrow> real \<Rightarrow> real \<Rightarrow> js_error + canvas_op" where
  "roundRect x y w h radius = (if radius < 0 then Inl RangeError else Inr (RoundRect x y w h radius))"

definition drawDeviceFrameToContext ::
  "canvas \<Rightarrow> real \<Rightarrow> real \<Rightarrow> real \<Rightarrow> real \<Rightarrow> screenshot_settings \<Rightarrow> frame_config \<Rightarrow> js_error + canvas" where
  "drawDeviceFrameToContext context x y w h settings fr =
     (let frameWidth = frame_width fr * (w / 400);
          radius = (case cornerRadius settings of None \<Rightarrow> 0 | Some r \<Rightarrow> r) * (w / 400) + frameWidth
      in case roundRect (x - frameWidth / 2) (y - frameWidth / 2) (w + frameWidth) (h + frameWidth) radius of
           Inl e \<Rightarrow> Inl e
         | Inr rr \<Rightarrow>
             Inr (draw context
               [Set (GlobalAlpha (frame_opacity fr / 100)), Set (StrokeStyle (frame_color fr)),
                Set (LineWidth frameWidth), BeginPath, rr, Stroke, Set (GlobalAlpha 1)]))"

definition shadow_ops :: "shadow_config \<Rightarrow> canvas_op \<Rightarrow> canvas_op list" where
  "shadow_ops sh rr =
     [Set (ShadowColor (shadow_color sh @ round_hex2 (shadow_opacity sh / 100 * 255))),
      Set (ShadowBlur (shadow_blur sh)),
      Set (ShadowOffsetX (shadow_x sh)),
      Set (ShadowOffsetY (shadow_y sh)),
      Set (FillStyle (Color ''#000'')), BeginPath, rr, Fill,
      Set (ShadowColor ''transparent''), Set (ShadowBlur 0),
      Set (ShadowOffsetX 0), Set (ShadowOffsetY 0)]"

definition drawScreenshotToContext ::
  "canvas \<Rightarrow> dims \<Rightarrow> image option \<Rightarrow> screenshot_settings \<Rightarrow> js_error + canvas" where
  "drawScreenshotToContext context dims img_opt settings =
     (case img_opt of
        None \<Rightarrow> Inr context
      | Some img \<Rightarrow>
          (case screenshot_box dims img settings of (x, y, imgWidth, imgHeight) \<Rightarrow>
             let centerX = x + imgWidth / 2;
                 centerY = y + imgHeight / 2;
                 radius = (case cornerRadius settings of None \<Rightarrow> 0 | Some r \<Rightarrow> r) * (imgWidth / 400)
             in case roundRect x y imgWidth imgHeight radius of
                  Inl e \<Rightarrow> Inl e
                | Inr rr \<Rightarrow>
                    let drawn = draw context
                          ([Save] @ box_transform settings centerX centerY @
                           (case shadow settings of
                              None \<Rightarrow> []
                            | Some sh \<Rightarrow> if shadow_enabled sh then shadow_ops sh rr else []) @
                           [BeginPath, rr, Clip, DrawImage img x y imgWidth imgHeight, Restore])
                    in case frame settings of
                         None \<Rightarrow> Inr drawn
                       | Some fr \<Rightarrow>
                           if frame_enabled fr then
                             (case drawDeviceFrameToContext
                                     (draw drawn ([Save] @ box_transform settings centerX centerY))
                                     x y imgWidth imgHeight settings fr of
                                Inl e \<Rightarrow> Inl e
                              | Inr framed \<Rightarrow> Inr (draw framed [Restore]))
                           else Inr drawn))"

subsection \<open>Text\<close>

text \<open>\<open>lang || 'en'\<close>: an absent or empty language is \<open>en\<close>.\<close>

definition lang_or_en :: "string option \<Rightarrow> string" where
  "lang_or_en l = (case l of None \<Rightarrow> ''en'' | Some s \<Rightarrow> if s = [] then ''en'' else s)"

text \<open>\<open>map ? (map[lang || 'en'] || '') : ''\<close>.\<close>

definition localized_string :: "(string \<times> string) list option \<Rightarrow> string option \<Rightarrow> string" where
  "localized_string m l =
     (case m of
        None \<Rightarrow> []
      | Some kv \<Rightarrow> (case map_of kv (lang_or_en l) of None \<Rightarrow> [] | Some s \<Rightarrow> s))"

text \<open>
  One iteration of \<open>lines.forEach\<close> for the headline: the line, then its underline and
  its strikethrough as filled rectangles.
\<close>

definition headline_line ::
  "env \<Rightarrow> dims \<Rightarrow> text_config \<Rightarrow> real \<Rightarrow> real \<Rightarrow> canvas \<Rightarrow> nat \<times> string \<Rightarrow> canvas" where
  "headline_line env dims txt currentY lineHeight' context il =
     (let y = currentY + real (fst il) * lineHeight';
          c1 = draw context [FillText (snd il) (width dims / 2) y];
          textWidth = measureText env c1 (snd il);
          fontSize = headlineSize txt;
          lineThickness = max 2 (fontSize * 0.05);
          x = width dims / 2 - textWidth / 2;
          c2 = (if headlineUnderline txt
                then draw c1 [FillRect x (if position txt = ''top'' then y + fontSize * 0.9
                                          else y + fontSize * 0.1) textWidth lineThickness]
                else c1)
      in if headlineStrikethrough txt
         then draw c2 [FillRect x (if position txt = ''top'' then y + fontSize * 0.4
                                   else y - fontSize * 0.4) textWidth lineThickness]
         else c2)"

text \<open>
  The same for the subheadline. Its start \<open>subY\<close> is \<open>NaN\<close> (\<open>None\<close>) when the headline
  produced no line; the context ignores a call with a \<open>NaN\<close> coordinate.
\<close>

definition subheadline_line ::
  "env \<Rightarrow> dims \<Rightarrow> text_config \<Rightarrow> real option \<Rightarrow> real \<Rightarrow> canvas \<Rightarrow> nat \<times> string \<Rightarrow> canvas" where
  "subheadline_line env dims txt subY subLineHeight context il =
     (case subY of
        None \<Rightarrow> context
      | Some sy \<Rightarrow>
          (let y = sy + real (fst il) * subLineHeight;
               c1 = draw context [FillText (snd il) (width dims / 2) y];
               textWidth = measureText env c1 (snd il);
               fontSize = subheadlineSize txt;
               lineThickness = max 2 (fontSize * 0.05);
               x = width dims / 2 - textWidth / 2;
               c2 = (if subheadlineUnderline txt
                     then draw c1 [FillRect x (y + fontSize * 0.9) textWidth lineThickness]
                     else c1)
           in if subheadlineStrikethrough txt
              then draw c2 [FillRect x (y + fontSize * 0.4) textWidth lineThickness]
              else c2))"

text \<open>
  The headline block of \<open>drawTextToContext\<close>: the canvas after it and the new
  \<open>currentY\<close>, which is \<open>lastLineY\<close> plus the gap and \<open>NaN\<close> when there was no line.
\<close>

definition draw_headline ::
  "env \<Rightarrow> canvas \<Rightarrow> dims \<Rightarrow> text_config \<Rightarrow> string \<Rightarrow> real \<Rightarrow> real \<Rightarrow> canvas \<times> real option" where
  "draw_headline env context dims txt headline padding textY =
     (let c1 = draw context
            [Set (Font \<lparr>fontStyle = (if headlineItalic txt then ''italic'' else ''normal''),
                        fontWeight = headlineWeight txt, fontSizePx = headlineSize txt,
                        fontFamily = headlineFont txt\<rparr>),
             Set (FillStyle (Color (headlineColor txt)))];
          lines = wrapText (measureText env c1) headline (width dims - padding * 2);
          lineHeight' = headlineSize txt * (lineHeight txt / 100);
          currentY = (if position txt = ''bottom''
                      then textY - (real (length lines) - 1) * lineHeight' else textY);
          c2 = foldl (headline_line env dims txt currentY lineHeight') c1 (enumerate 0 lines);
          gap = lineHeight' - headlineSize txt
      in (c2,
          if lines = [] then None
          else (let lastLineY = currentY + real (length lines - 1) * lineHeight' in
                if position txt = ''top'' then Some (lastLineY + headlineSize txt + gap)
                else Some (lastLineY + gap))))"

definition draw_subheadline ::
  "env \<Rightarrow> canvas \<Rightarrow> dims \<Rightarrow> text_config \<Rightarrow> string \<Rightarrow> real \<Rightarrow> real option \<Rightarrow> canvas" where
  "draw_subheadline env context dims txt subheadline padding currentY =
     (let c1 = draw context
            [Set (Font \<lparr>fontStyle = (if subheadlineItalic txt then ''italic'' else ''normal''),
                        fontWeight = (case subheadlineWeight txt of
                                        None \<Rightarrow> ''400''
                                      | Some w \<Rightarrow> if w = [] then ''400'' else w),
                        fontSizePx = subheadlineSize txt,
                        fontFamily = (case subheadlineFont txt of
                                        None \<Rightarrow> headlineFont txt
                                      | Some f \<Rightarrow> if f = [] then headlineFont txt else f)\<rparr>),
             Set (FillStyle (Rgba (subheadlineColor txt) (subheadlineOpacity txt / 100)))];
          lines = wrapText (measureText env c1) subheadline (width dims - padding * 2);
          subLineHeight = subheadlineSize txt * 1.4;
          c2 = (if position txt = ''bottom'' then draw c1 [Set (TextBaseline ''top'')] else c1);
          c3 = foldl (subheadline_line env dims txt currentY subLineHeight) c2 (enumerate 0 lines)
      in if position txt = ''bottom'' then draw c3 [Set (TextBaseline ''bottom'')] else c3)"

definition drawTextToContext :: "env \<Rightarrow> canvas \<Rightarrow> dims \<Rightarrow> text_config \<Rightarrow> canvas" where
  "drawTextToContext env context dims txt =
     (let headline = (if headlineEnabled txt \<noteq> Some False
                      then localized_string (headlines txt) (currentHeadlineLang txt) else []);
          subheadline = (if subheadlineEnabled txt
                         then localized_string (subheadlines txt) (currentSubheadlineLang txt) else [])
      in if headline = [] \<and> subheadline = [] then context
         else
           (let padding = width dims * 0.08;
                textY = (if position txt = ''top'' then height dims * (offsetY txt / 100)
                         else height dims * (1 - offsetY txt / 100));
                c1 = draw context
                       [Set (TextAlign ''center''),
                        Set (TextBaseline (if position txt = ''top'' then ''top'' else ''bottom''))];
                hd_result = (if headline \<noteq> [] then draw_headline env c1 dims txt headline padding textY
                             else (c1, Some textY))
            in if subheadline \<noteq> []
               then draw_subheadline env (fst hd_result) dims txt subheadline padding (snd hd_result)
               else fst hd_result))"

section \<open>Program state\<close>

text \<open>
  A screenshot entry of \<open>state.screenshots\<close>, with the types of its three settings
  objects as parameters: the renderer reads them as records, the setters address them by
  property paths. \<open>localizedImages\<close> maps a language code to the image of that language.
\<close>

record ('bg, 'ss, 'txt) screenshot_entry =
  unit_image :: "image option"
  background :: 'bg
  screenshot :: 'ss
  unit_text :: 'txt
  localizedImages :: "(string \<times> image) list"

text \<open>
  The global \<open>state\<close>. An array slot that was never assigned (\<open>loadState\<close> fills
  \<open>state.screenshots[index]\<close> when the image of that index has loaded) is \<open>None\<close>.
\<close>

record ('bg, 'ss, 'txt) state =
  screenshots :: "('bg, 'ss, 'txt) screenshot_entry option list"
  selectedIndex :: nat
  currentLanguage :: string
  projectLanguages :: "string list"
  defaults_background :: 'bg
  defaults_screenshot :: 'ss
  defaults_text :: 'txt

text \<open>\<open>xs[i]\<close> of an array with holes: \<open>undefined\<close> outside the array and at a hole.\<close>

definition array_get :: "'a option list \<Rightarrow> nat \<Rightarrow> 'a option" where
  "array_get xs i = (if i < length xs then xs ! i else None)"

definition getCurrentScreenshot :: "('bg, 'ss, 'txt) state \<Rightarrow> ('bg, 'ss, 'txt) screenshot_entry option" where
  "getCurrentScreenshot st =
     (if length (screenshots st) = 0 then None else array_get (screenshots st) (selectedIndex st))"

subsection \<open>The orchestrator\<close>

definition renderScreenshotToCanvas ::
  "(nat \<Rightarrow> real) \<Rightarrow> env \<Rightarrow> (background_config, screenshot_settings, text_config) state \<Rightarrow>
   nat \<Rightarrow> canvas \<Rightarrow> dims \<Rightarrow> real \<Rightarrow> js_error + canvas" where
  "renderScreenshotToCanvas random env st index targetCanvas dims previewScale =
     (case array_get (screenshots st) index of
        None \<Rightarrow> Inr targetCanvas
      | Some entry \<Rightarrow>
          if unit_image entry = None then Inr targetCanvas
          else
            (let sized = (set_canvas_height (height dims) (set_canvas_width (width dims) targetCanvas))
                           \<lparr>style_width := Some (width dims * previewScale),
                            style_height := Some (height dims * previewScale)\<rparr>;
                 cleared = draw sized [ClearRect 0 0 (width dims) (height dims)];
                 bg = background entry;
                 settings = screenshot entry
             in and_then (drawBackgroundToContext cleared dims bg) (\<lambda>c1.
                and_then (if noise bg then drawNoiseToContext random env c1 dims (noiseIntensity bg)
                          else Inr c1) (\<lambda>c2.
                and_then (case renderThreeJSForScreenshot env of
                            None \<Rightarrow> drawScreenshotToContext c2 dims (unit_image entry) settings
                          | Some render3D \<Rightarrow>
                              if use3D settings \<and> phoneModelLoaded env
                              then render3D c2 (width dims) (height dims) index
                              else drawScreenshotToContext c2 dims (unit_image entry) settings) (\<lambda>c3.
                Inr (drawTextToContext env c3 dims (unit_text entry)))))))"

section \<open>Project languages\<close>

text \<open>
  The refresh of the page, the redraw and the save that these functions end with change
  the page, the canvas and the store, not the fields of \<open>state\<close>; they are left out.
\<close>

definition switchGlobalLanguage ::
  "string \<Rightarrow> ('bg, 'ss, text_config) state \<Rightarrow> ('bg, 'ss, text_config) state" where
  "switchGlobalLanguage lang st =
     st\<lparr>currentLanguage := lang,
        screenshots :=
          map (map_option (\<lambda>entry. entry\<lparr>unit_text :=
                 (unit_text entry)\<lparr>currentHeadlineLang := Some lang,
                                   currentSubheadlineLang := Some lang\<rparr>\<rparr>))
              (screenshots st)\<rparr>"

text \<open>
  \<open>hIndex = t.headlineLanguages.indexOf(lang); if (hIndex > -1) { splice; delete
  t.headlines[lang] }\<close>. The \<open>delete\<close> throws \<open>TypeError\<close> when the map is absent.
\<close>

definition purge_headline :: "string \<Rightarrow> text_config \<Rightarrow> js_error + text_config" where
  "purge_headline lang t =
     (case indexOf (headlineLanguages t) lang of
        None \<Rightarrow> Inr t
      | Some hIndex \<Rightarrow>
          (case headlines t of
             None \<Rightarrow> Inl TypeError
           | Some m \<Rightarrow>
               Inr (t\<lparr>headlineLanguages := splice1 hIndex (headlineLanguages t),
                      headlines := Some (AList.delete lang m)\<rparr>)))"

definition purge_subheadline :: "string \<Rightarrow> text_config \<Rightarrow> js_error + text_config" where
  "purge_subheadline lang t =
     (case indexOf (subheadlineLanguages t) lang of
        None \<Rightarrow> Inr t
      | Some sIndex \<Rightarrow>
          (case subheadlines t of
             None \<Rightarrow> Inl TypeError
           | Some m \<Rightarrow>
               Inr (t\<lparr>subheadlineLanguages := splice1 sIndex (subheadlineLanguages t),
                      subheadlines := Some (AList.delete lang m)\<rparr>)))"

definition purge_language :: "string \<Rightarrow> text_config \<Rightarrow> js_error + text_config" where
  "purge_language lang t =
     (case purge_headline lang t of Inl e \<Rightarrow> Inl e | Inr t1 \<Rightarrow> purge_subheadline lang t1)"

text \<open>
  The two assignments that follow in the body of the \<open>forEach\<close>; \<open>first\<close> is
  \<open>state.projectLanguages[0]\<close>.
\<close>

definition repoint_language :: "string \<Rightarrow> string \<Rightarrow> text_config \<Rightarrow> text_config" where
  "repoint_language lang first t =
     (let t1 = (if currentHeadlineLang t = Some lang then t\<lparr>currentHeadlineLang := Some first\<rparr> else t)
      in if currentSubheadlineLang t1 = Some lang then t1\<lparr>currentSubheadlineLang := Some first\<rparr>
         else t1)"

definition remove_language_from_entry ::
  "string \<Rightarrow> string \<Rightarrow> ('bg, 'ss, text_config) screenshot_entry \<Rightarrow>
   js_error + ('bg, 'ss, text_config) screenshot_entry" where
  "remove_language_from_entry lang first entry =
     (case purge_language lang (unit_text entry) of
        Inl e \<Rightarrow> Inl e
      | Inr t \<Rightarrow> Inr (entry\<lparr>unit_text := repoint_language lang first t\<rparr>))"

text \<open>\<open>forEach\<close> over an array with holes, stopping at the first exception.\<close>

fun forEach_entry :: "('a \<Rightarrow> js_error + 'a) \<Rightarrow> 'a option list \<Rightarrow> js_error + 'a option list" where
  "forEach_entry f [] = Inr []"
| "forEach_entry f (None # xs) =
     (case forEach_entry f xs of Inl e \<Rightarrow> Inl e | Inr ys \<Rightarrow> Inr (None # ys))"
| "forEach_entry f (Some x # xs) =
     (case f x of
        Inl e \<Rightarrow> Inl e
      | Inr y \<Rightarrow> (case forEach_entry f xs of Inl e \<Rightarrow> Inl e | Inr ys \<Rightarrow> Inr (Some y # ys)))"

definition removeProjectLanguage ::
  "string \<Rightarrow> ('bg, 'ss, text_config) state \<Rightarrow> js_error + ('bg, 'ss, text_config) state" where
  "removeProjectLanguage lang st =
     (if length (projectLanguages st) \<le> 1 then Inr st
      else
        (case indexOf (projectLanguages st) lang of
           None \<Rightarrow> Inr st
         | Some index \<Rightarrow>
             (let st1 = st\<lparr>projectLanguages := splice1 index (projectLanguages st)\<rparr> in
              case projectLanguages st1 of
                [] \<Rightarrow> Inr st1
              | first # others \<Rightarrow>
                  (let st2 = (if currentLanguage st1 = lang then switchGlobalLanguage first st1 else st1) in
                   case forEach_entry (remove_language_from_entry lang first) (screenshots st2) of
                     Inl e \<Rightarrow> Inl e
                   | Inr entries \<Rightarrow>
                       (case purge_language lang (defaults_text st2) of
                          Inl e \<Rightarrow> Inl e
                        | Inr d \<Rightarrow> Inr (st2\<lparr>screenshots := entries, defaults_text := d\<rparr>))))))"

section \<open>Setters of nested settings\<close>

text \<open>
  The setters address a settings object by a property path, so here the settings are
  plain values of the host language. An object is the list of its own properties in
  insertion order; it is an ordinary object, made by an object literal or by
  \<open>JSON.parse\<close>, so beyond its own properties it has those of \<open>Object.prototype\<close>. An
  array is the list of its elements. The scripts are not in strict mode: assigning to a
  property of a number, a string or a boolean is ignored, and reading or assigning a
  property of \<open>undefined\<close> or \<open>null\<close> throws \<open>TypeError\<close>.
\<close>

datatype jsval =
    JUndefined
  | JNull
  | JBool bool
  | JNum real
  | JStr string
  | JArr "jsval list"
  | JObj "(string \<times> jsval) list"

text \<open>
  A property access returns, or throws, or leaves the settings: it reaches a property
  that the value has from its prototype (a built-in function, or the prototype itself)
  or that this representation of a value cannot hold. The built-in objects of the engine
  are no part of these values, so the model says \<open>Outside\<close> there and nothing about what
  the program does next.
\<close>

datatype 'a outcome = Returns 'a | Throws js_error | Outside

text \<open>
  The names that an ordinary object inherits from \<open>Object.prototype\<close>. What a number, a
  string, a boolean or an array inherits depends on the version of the engine and is not
  listed: every name that is not an own property of such a value is \<open>Outside\<close>.
\<close>

definition object_prototype_names :: "string list" where
  "object_prototype_names =
     [''constructor'', ''hasOwnProperty'', ''isPrototypeOf'', ''propertyIsEnumerable'',
      ''toLocaleString'', ''toString'', ''valueOf'', ''__proto__'',
      ''__defineGetter__'', ''__defineSetter__'', ''__lookupGetter__'', ''__lookupSetter__'']"

text \<open>Array indices and the indices of the characters of a string, in canonical form.\<close>

definition digit_value :: "char \<Rightarrow> nat option" where
  "digit_value c = map_of (zip ''0123456789'' [0 ..< 10]) c"

fun parse_digits :: "nat \<Rightarrow> string \<Rightarrow> nat option" where
  "parse_digits acc [] = Some acc"
| "parse_digits acc (c # cs) =
     (case digit_value c of None \<Rightarrow> None | Some d \<Rightarrow> parse_digits (10 * acc + d) cs)"

definition canonical_index :: "string \<Rightarrow> nat option" where
  "canonical_index k =
     (case k of
        [] \<Rightarrow> None
      | c # cs \<Rightarrow> if c = CHR ''0'' \<and> cs \<noteq> [] then None else parse_digits 0 k)"

text \<open>
  \<open>obj[key]\<close>. An own property is found first; an index past the end of an array or of
  a string is \<open>undefined\<close>, as no prototype has indices.
\<close>

fun js_get :: "jsval \<Rightarrow> string \<Rightarrow> jsval outcome" where
  "js_get JUndefined k = Throws TypeError"
| "js_get JNull k = Throws TypeError"
| "js_get (JObj kv) k =
     (case map_of kv k of
        Some v \<Rightarrow> Returns v
      | None \<Rightarrow> if k \<in> set object_prototype_names then Outside else Returns JUndefined)"
| "js_get (JArr xs) k =
     (case canonical_index k of
        Some i \<Rightarrow> Returns (if i < length xs then xs ! i else JUndefined)
      | None \<Rightarrow> if k = ''length'' then Returns (JNum (real (length xs))) else Outside)"
| "js_get (JStr s) k =
     (case canonical_index k of
        Some i \<Rightarrow> Returns (if i < length s then JStr [s ! i] else JUndefined)
      | None \<Rightarrow> if k = ''length'' then Returns (JNum (real (length s))) else Outside)"
| "js_get (JBool b) k = Outside"
| "js_get (JNum n) k = Outside"

text \<open>
  \<open>obj[key] = value\<close>. On an ordinary object the assignment changes the own property
  or creates it, also under a name that \<open>Object.prototype\<close> has as a method; only
  \<open>__proto__\<close>, which is inherited as a setter, is not stored when the object has no own
  property of that name. On an array an element that exists is replaced; growing the
  array, its \<open>length\<close> and its other properties are \<open>Outside\<close>.
\<close>

fun js_put :: "jsval \<Rightarrow> string \<Rightarrow> jsval \<Rightarrow> jsval outcome" where
  "js_put JUndefined k v = Throws TypeError"
| "js_put JNull k v = Throws TypeError"
| "js_put (JObj kv) k v =
     (if k = ''__proto__'' \<and> map_of kv k = None then Outside
      else Returns (JObj (AList.update k v kv)))"
| "js_put (JArr xs) k v =
     (case canonical_index k of
        Some i \<Rightarrow> if i < length xs then Returns (JArr (xs[i := v])) else Outside
      | None \<Rightarrow> Outside)"
| "js_put (JStr s) k v = Returns (JStr s)"
| "js_put (JBool b) k v = Returns (JBool b)"
| "js_put (JNum n) k v = Returns (JNum n)"

text \<open>
  \<open>let obj = root; for (i = 0; i < parts.length - 1; i++) obj = obj[parts[i]];
  obj[parts[parts.length - 1]] = value\<close>. The program follows references and mutates the
  last object in place; on values this is the root rebuilt along the path. A step that
  reads a primitive copies it, so the write after it changes nothing.
\<close>

fun assign_path :: "jsval \<Rightarrow> string list \<Rightarrow> jsval \<Rightarrow> jsval outcome" where
  "assign_path obj [] v = Returns obj"
| "assign_path obj [k] v = js_put obj k v"
| "assign_path obj (k # k' # ks) v =
     (case js_get obj k of
        Throws e \<Rightarrow> Throws e
      | Outside \<Rightarrow> Outside
      | Returns child \<Rightarrow>
          (case assign_path child (k' # ks) v of
             Throws e \<Rightarrow> Throws e
           | Outside \<Rightarrow> Outside
           | Returns child' \<Rightarrow> js_put obj k child'))"

definition assign_key :: "jsval \<Rightarrow> string \<Rightarrow> jsval \<Rightarrow> jsval outcome" where
  "assign_key obj key v =
     (if CHR ''.'' \<in> set key then assign_path obj (split_on (CHR ''.'') key) v
      else js_put obj key v)"

definition setBackground ::
  "string \<Rightarrow> jsval \<Rightarrow> (jsval, 'ss, 'txt) state \<Rightarrow> (jsval, 'ss, 'txt) state outcome" where
  "setBackground key v st =
     (case getCurrentScreenshot st of
        None \<Rightarrow> Returns st
      | Some entry \<Rightarrow>
          (case assign_key (background entry) key v of
             Throws e \<Rightarrow> Throws e
           | Outside \<Rightarrow> Outside
           | Returns bg \<Rightarrow>
               Returns (st\<lparr>screenshots :=
                     (screenshots st)[selectedIndex st := Some (entry\<lparr>background := bg\<rparr>)]\<rparr>)))"

definition setScreenshotSetting ::
  "string \<Rightarrow> jsval \<Rightarrow> ('bg, jsval, 'txt) state \<Rightarrow> ('bg, jsval, 'txt) state outcome" where
  "setScreenshotSetting key v st =
     (case getCurrentScreenshot st of
        None \<Rightarrow> Returns st
      | Some entry \<Rightarrow>
          (case assign_key (screenshot entry) key v of
             Throws e \<Rightarrow> Throws e
           | Outside \<Rightarrow> Outside
           | Returns s \<Rightarrow>
               Returns (st\<lparr>screenshots :=
                     (screenshots st)[selectedIndex st := Some (entry\<lparr>screenshot := s\<rparr>)]\<rparr>)))"

text \<open>
  Reading a path; a path whose every step is an own property holding an ordinary
  object; and two paths that part at some step, so that neither leads through the end
  of the other.
\<close>

fun read_path :: "jsval \<Rightarrow> string list \<Rightarrow> jsval outcome" where
  "read_path obj [] = Returns obj"
| "read_path obj (k # ks) =
     (case js_get obj k of
        Throws e \<Rightarrow> Throws e
      | Outside \<Rightarrow> Outside
      | Returns child \<Rightarrow> read_path child ks)"

fun objects_along :: "jsval \<Rightarrow> string list \<Rightarrow> bool" where
  "objects_along (JObj kv) [] = True"
| "objects_along (JObj kv) (k # ks) =
     (case map_of kv k of None \<Rightarrow> False | Some child \<Rightarrow> objects_along child ks)"
| "objects_along v ks = False"

fun parts_ways :: "string list \<Rightarrow> string list \<Rightarrow> bool" where
  "parts_ways (a # p) (b # q) = (a \<noteq> b \<or> parts_ways p q)"
| "parts_ways p q = False"

section \<open>What removing a language leaves behind\<close>

text \<open>
  The text settings \<open>t'\<close> are \<open>t\<close> without the language: it is struck from both language
  lists, and its key is deleted from a language map when the list of that map named it.
\<close>

definition text_without :: "string \<Rightarrow> text_config \<Rightarrow> text_config \<Rightarrow> bool" where
  "text_without lang t t' =
     (headlineLanguages t' = remove1 lang (headlineLanguages t)
      \<and> subheadlineLanguages t' = remove1 lang (subheadlineLanguages t)
      \<and> headlines t' = (if lang \<in> set (headlineLanguages t)
                         then map_option (AList.delete lang) (headlines t) else headlines t)
      \<and> subheadlines t' = (if lang \<in> set (subheadlineLanguages t)
                            then map_option (AList.delete lang) (subheadlines t) else subheadlines t))"

text \<open>
  The entry \<open>e'\<close> is \<open>e\<close> after the removal: its text is without the language, a current
  language that was the removed one (or every current language, when the global
  language was switched) is now \<open>first\<close>, and its images are untouched.
\<close>

definition entry_without ::
  "string \<Rightarrow> string \<Rightarrow> bool \<Rightarrow> ('bg, 'ss, text_config) screenshot_entry \<Rightarrow>
   ('bg, 'ss, text_config) screenshot_entry \<Rightarrow> bool" where
  "entry_without lang first switched e e' =
     (text_without lang (unit_text e) (unit_text e')
      \<and> currentHeadlineLang (unit_text e') =
          (if switched \<or> currentHeadlineLang (unit_text e) = Some lang then Some first
           else currentHeadlineLang (unit_text e))
      \<and> currentSubheadlineLang (unit_text e') =
          (if switched \<or> currentSubheadlineLang (unit_text e) = Some lang then Some first
           else currentSubheadlineLang (unit_text e))
      \<and> unit_image e' = unit_image e
      \<and> localizedImages e' = localizedImages e)"

text \<open>No entry shows the language.\<close>

definition shows_language :: "string \<Rightarrow> ('bg, 'ss, text_config) screenshot_entry option \<Rightarrow> bool" where
  "shows_language lang slot =
     (case slot of
        None \<Rightarrow> False
      | Some e \<Rightarrow> currentHeadlineLang (unit_text e) = Some lang
                 \<or> currentSubheadlineLang (unit_text e) = Some lang)"

text \<open>Both language maps of the text settings exist.\<close>

definition maps_present :: "text_config \<Rightarrow> bool" where
  "maps_present t = (headlines t \<noteq> None \<and> subheadlines t \<noteq> None)"

definition entry_maps_present :: "('bg, 'ss, text_config) screenshot_entry option \<Rightarrow> bool" where
  "entry_maps_present slot = (case slot of None \<Rightarrow> True | Some e \<Rightarrow> maps_present (unit_text e))"

section \<open>The main canvas and the export\<close>












subsection \<open>Saving\<close>


subsection \<open>Background, noise and text of the main canvas\<close>











subsection \<open>Screenshot of the main canvas\<close>





subsection \<open>Side previews\<close>







subsection \<open>The redraw\<close>



subsection \<open>Export\<close>







section \<open>Initial settings and sample inputs\<close>

text \<open>
  \<open>state.defaults\<close> as the program initialises it, and \<open>deviceDimensions['iphone-6.9']\<close>.
\<close>

definition defaults_background_init :: background_config where
  "defaults_background_init =
     \<lparr>bg_type = ''gradient'',
      gradient = \<lparr>angle = 135,
                  stops = [\<lparr>stop_color = ''#667eea'', stop_position = 0\<rparr>,
                           \<lparr>stop_color = ''#764ba2'', stop_position = 100\<rparr>]\<rparr>,
      solid = ''#1a1a2e'', bg_image = None, imageFit = ''cover'', imageBlur = 0,
      overlayColor = ''#000000'', overlayOpacity = 0, noise = False, noiseIntensity = 10\<rparr>"

definition defaults_screenshot_init :: screenshot_settings where
  "defaults_screenshot_init =
     \<lparr>scale = 70, pos_x = 50, pos_y = 55, rotation = 0, perspective = 0,
      cornerRadius = Some 24, use3D = False, device3D = Some ''iphone'',
      shadow = Some \<lparr>shadow_enabled = True, shadow_color = ''#000000'', shadow_blur = 40,
                      shadow_opacity = 30, shadow_x = 0, shadow_y = 20\<rparr>,
      frame = Some \<lparr>frame_enabled = False, frame_color = ''#1d1d1f'', frame_width = 12,
                     frame_opacity = 100\<rparr>\<rparr>"

definition defaults_text_init :: text_config where
  "defaults_text_init =
     \<lparr>headlineEnabled = Some True, headlines = Some [(''en'', [])],
      headlineLanguages = [''en''], currentHeadlineLang = Some ''en'',
      headlineFont = ''-apple-system'', headlineSize = 100, headlineWeight = ''600'',
      headlineItalic = False, headlineUnderline = False, headlineStrikethrough = False,
      headlineColor = ''#ffffff'', position = ''top'', offsetY = 12, lineHeight = 110,
      subheadlineEnabled = False, subheadlines = Some [(''en'', [])],
      subheadlineLanguages = [''en''], currentSubheadlineLang = Some ''en'',
      subheadlineFont = Some ''-apple-system'', subheadlineSize = 50,
      subheadlineWeight = Some ''400'', subheadlineItalic = False,
      subheadlineUnderline = False, subheadlineStrikethrough = False,
      subheadlineColor = ''#ffffff'', subheadlineOpacity = 70\<rparr>"

definition iphone_6_9 :: dims where
  "iphone_6_9 = \<lparr>width = 1320, height = 2868\<rparr>"

text \<open>
  Sample inputs: a tall and a wide source image, a blank canvas, a browser in which
  every character is ten pixels wide and every pixel read back is opaque black, with
  no 3D renderer.
\<close>

definition tall_image :: image where
  "tall_image = \<lparr>width = 1000, height = 3000, src = ''tall.png''\<rparr>"

definition wide_image :: image where
  "wide_image = \<lparr>width = 2000, height = 1000, src = ''wide.png''\<rparr>"

definition blank_canvas :: canvas where
  "blank_canvas =
     \<lparr>canvas_width = 300, canvas_height = 150, style_width = None, style_height = None, ops = []\<rparr>"

definition sample_env :: env where
  "sample_env =
     \<lparr>getImageData = (\<lambda>c w h. Inr [0, 0, 0, 255]),
      measureText = (\<lambda>c s. 10 * real (length s)),
      renderThreeJSForScreenshot = None,
      phoneModelLoaded = False\<rparr>"

text \<open>
  A project with one screenshot entry made from the defaults, with a headline; the same
  entry with a solid background and without its image; and the states holding them.
\<close>

definition sample_entry :: "(background_config, screenshot_settings, text_config) screenshot_entry" where
  "sample_entry =
     \<lparr>unit_image = Some tall_image,
      background = defaults_background_init,
      screenshot = defaults_screenshot_init,
      unit_text = defaults_text_init\<lparr>headlines := Some [(''en'', ''Hello world'')]\<rparr>,
      localizedImages = [(''en'', tall_image)]\<rparr>"


definition state_with ::
  "(background_config, screenshot_settings, text_config) screenshot_entry option list \<Rightarrow>
   (background_config, screenshot_settings, text_config) state" where
  "state_with entries =
     \<lparr>screenshots = entries, selectedIndex = 0, currentLanguage = ''en'',
      projectLanguages = [''en''],
      defaults_background = defaults_background_init,
      defaults_screenshot = defaults_screenshot_init,
      defaults_text = defaults_text_init\<rparr>"

text \<open>
  Settings as plain objects: the default screenshot settings, the same object as a
  project saved without a \<open>shadow\<close> entry holds it, a background, and the state whose
  only and selected entry has given screenshot settings.
\<close>

definition screenshot_object :: jsval where
  "screenshot_object =
     JObj [(''scale'', JNum 70), (''y'', JNum 55), (''x'', JNum 50), (''rotation'', JNum 0),
           (''perspective'', JNum 0), (''cornerRadius'', JNum 24),
           (''shadow'', JObj [(''enabled'', JBool True), (''color'', JStr ''#000000''),
                             (''blur'', JNum 40), (''opacity'', JNum 30),
                             (''x'', JNum 0), (''y'', JNum 20)])]"

definition screenshot_object_without_shadow :: jsval where
  "screenshot_object_without_shadow =
     JObj [(''scale'', JNum 70), (''y'', JNum 55), (''x'', JNum 50), (''rotation'', JNum 0),
           (''perspective'', JNum 0), (''cornerRadius'', JNum 24)]"

definition background_object :: jsval where
  "background_object =
     JObj [(''type'', JStr ''gradient''),
           (''gradient'',
              JObj [(''angle'', JNum 135),
                    (''stops'',
                       JArr [JObj [(''color'', JStr ''#667eea''), (''position'', JNum 0)],
                             JObj [(''color'', JStr ''#764ba2''), (''position'', JNum 100)]])]),
           (''solid'', JStr ''#1a1a2e''), (''noise'', JBool False)]"

definition object_state :: "jsval \<Rightarrow> (jsval, jsval, text_config) state" where
  "object_state settings =
     \<lparr>screenshots = [Some \<lparr>unit_image = Some tall_image, background = background_object,
                            screenshot = settings, unit_text = defaults_text_init,
                            localizedImages = []\<rparr>],
      selectedIndex = 0, currentLanguage = ''en'', projectLanguages = [''en''],
      defaults_background = background_object, defaults_screenshot = screenshot_object,
      defaults_text = defaults_text_init\<rparr>"

text \<open>
  A project in English and German, showing German. Its first entry lists German in its
  language lists and has a German image; its second entry has a German headline in its
  map but does not list German.
\<close>

definition bilingual_text :: text_config where
  "bilingual_text =
     defaults_text_init
       \<lparr>headlines := Some [(''en'', ''Hello''), (''de'', ''Hallo'')],
        headlineLanguages := [''en'', ''de''],
        currentHeadlineLang := Some ''de'',
        subheadlines := Some [(''en'', []), (''de'', [])],
        subheadlineLanguages := [''en'', ''de''],
        currentSubheadlineLang := Some ''de''\<rparr>"

definition entry_listing_german :: "(background_config, screenshot_settings, text_config) screenshot_entry" where
  "entry_listing_german =
     sample_entry\<lparr>unit_text := bilingual_text,
                  localizedImages := [(''en'', tall_image), (''de'', wide_image)]\<rparr>"

definition entry_not_listing_german :: "(background_config, screenshot_settings, text_config) screenshot_entry" where
  "entry_not_listing_german =
     sample_entry\<lparr>unit_text := defaults_text_init
                     \<lparr>headlines := Some [(''en'', ''Hello''), (''de'', ''Hallo'')]\<rparr>\<rparr>"

definition bilingual_state :: "(background_config, screenshot_settings, text_config) state" where
  "bilingual_state =
     (state_with [Some entry_listing_german, Some entry_not_listing_german])
       \<lparr>currentLanguage := ''de'', projectLanguages := [''en'', ''de''],
        defaults_text := bilingual_text\<rparr>"

text \<open>The two entries and the defaults after German was removed from that project.\<close>

definition english_text :: text_config where
  "english_text =
     defaults_text_init
       \<lparr>headlines := Some [(''en'', ''Hello'')],
        headlineLanguages := [''en''],
        currentHeadlineLang := Some ''en'',
        subheadlines := Some [(''en'', [])],
        subheadlineLanguages := [''en''],
        currentSubheadlineLang := Some ''en''\<rparr>"

definition bilingual_state_after :: "(background_config, screenshot_settings, text_config) state" where
  "bilingual_state_after =
     (state_with
        [Some (entry_listing_german\<lparr>unit_text := english_text\<rparr>),
         Some entry_not_listing_german])
       \<lparr>defaults_text := english_text\<lparr>currentHeadlineLang := Some ''de'',
                                      currentSubheadlineLang := Some ''de''\<rparr>\<rparr>"





section \<open>Properties of language detection\<close>










section \<open>Properties of line wrapping\<close>



lemma split_on_nonempty: "split_on sep s \<noteq> []"
  by (induction s) (auto split: list.splits)

lemma join_split_on: "split_on sep s = w # ws \<Longrightarrow> w @ concat (map ((#) sep) ws) = s"
proof (induction s arbitrary: w ws)
  case Nil
  then show ?case by simp
next
  case (Cons c s)
  obtain v vs where v: "split_on sep s = v # vs"
    using split_on_nonempty [of sep s] by (cases "split_on sep s") auto
  with Cons.IH have j: "v @ concat (map ((#) sep) vs) = s" by blast
  show ?case
  proof (cases "c = sep")
    case True
    with Cons.prems v have "w = []" "ws = v # vs" by simp_all
    with True j show ?thesis by simp
  next
    case False
    with Cons.prems v have "w = c # v" "ws = vs" by simp_all
    with j show ?thesis by simp
  qed
qed

lemma foldl_greedy:
  "cur \<noteq> [] \<Longrightarrow> [] \<notin> set ws \<Longrightarrow>
   wrap_finish (foldl (wrap_step m W) (ls, cur) ws) = ls @ greedy_lines m W cur ws"
proof (induction ws arbitrary: ls cur)
  case Nil
  then show ?case by (simp add: wrap_finish_def)
next
  case (Cons w ws)
  then have w: "w \<noteq> []" and ws: "[] \<notin> set ws" by auto
  show ?case
  proof (cases "m (cur @ '' '' @ w) \<le> W")
    case True
    with Cons.prems have "wrap_step m W (ls, cur) w = (ls, cur @ '' '' @ w)"
      by (simp add: wrap_step_def)
    with True Cons.IH [of "cur @ '' '' @ w" ls] ws show ?thesis by simp
  next
    case False
    with Cons.prems have "wrap_step m W (ls, cur) w = (ls @ [cur], w)"
      by (simp add: wrap_step_def)
    with False Cons.IH [of w "ls @ [cur]"] w ws show ?thesis by simp
  qed
qed

lemma wrapText_refines:
  assumes "[] \<notin> set (split_on (CHR '' '') text)"
  shows "wrapText m text W = spec_wrap m W (split_on (CHR '' '') text)"
proof -
  obtain w ws where split: "split_on (CHR '' '') text = w # ws"
    using split_on_nonempty [of "CHR '' ''" "text"] by (cases "split_on (CHR '' '') text") auto
  with assms have w: "w \<noteq> []" and ws: "[] \<notin> set ws" by auto
  have "wrap_step m W ([], []) w = ([], w)" by (simp add: wrap_step_def)
  with foldl_greedy [OF w ws, of m W "[]"] split show ?thesis
    by (simp add: wrapText_def spec_wrap_def)
qed




lemma wrap_step_empty: "snd st = [] \<Longrightarrow> wrap_step m W st w = (fst st, w)"
  by (simp add: wrap_step_def Let_def)

lemma wrap_step_over:
  "snd st \<noteq> [] \<Longrightarrow> W < m (snd st @ '' '' @ w) \<Longrightarrow>
   wrap_step m W st w = (fst st @ [snd st], w)"
  by (simp add: wrap_step_def Let_def)

lemma wrap_step_fits:
  "snd st \<noteq> [] \<Longrightarrow> m (snd st @ '' '' @ w) \<le> W \<Longrightarrow>
   wrap_step m W st w = (fst st, snd st @ '' '' @ w)"
  by (simp add: wrap_step_def Let_def)

lemma wrap_step_cases:
  obtains (empty) "snd st = []" "wrap_step m W st w = (fst st, w)"
  | (over) "snd st \<noteq> []" "W < m (snd st @ '' '' @ w)" "wrap_step m W st w = (fst st @ [snd st], w)"
  | (fits) "snd st \<noteq> []" "m (snd st @ '' '' @ w) \<le> W" "wrap_step m W st w = (fst st, snd st @ '' '' @ w)"
proof (cases "snd st = []")
  case True
  then show ?thesis using wrap_step_empty [of st m W w] empty by blast
next
  case False
  show ?thesis
  proof (cases "W < m (snd st @ '' '' @ w)")
    case True
    with False wrap_step_over [of st W m w] over show ?thesis by blast
  next
    case nf: False
    then have "m (snd st @ '' '' @ w) \<le> W" by simp
    with False wrap_step_fits [of st m w W] fits show ?thesis by blast
  qed
qed

lemma wrap_step_fst:
  assumes "\<forall>l \<in> set (fst st). l \<noteq> [] \<and> line_ok m W A l"
    and "snd st = [] \<or> line_ok m W A (snd st)"
  shows "\<forall>l \<in> set (fst (wrap_step m W st w)). l \<noteq> [] \<and> line_ok m W A l"
proof (cases rule: wrap_step_cases [of st m W w])
  case empty
  with assms show ?thesis by simp
next
  case over
  with assms show ?thesis by simp
next
  case fits
  with assms show ?thesis by simp
qed

lemma wrap_step_snd:
  assumes "line_ok m W A w"
  shows "snd (wrap_step m W st w) = [] \<or> line_ok m W A (snd (wrap_step m W st w))"
proof (cases rule: wrap_step_cases [of st m W w])
  case empty
  with assms show ?thesis by simp
next
  case over
  with assms show ?thesis by simp
next
  case fits
  then show ?thesis by (simp add: line_ok_def)
qed

lemma foldl_wrap_inv:
  assumes "\<forall>l \<in> set (fst st). l \<noteq> [] \<and> line_ok m W A l"
    and "snd st = [] \<or> line_ok m W A (snd st)" and "\<forall>w \<in> set ws. line_ok m W A w"
  shows "\<forall>l \<in> set (wrap_finish (foldl (wrap_step m W) st ws)). l \<noteq> [] \<and> line_ok m W A l"
  using assms
proof (induction ws arbitrary: st)
  case Nil
  then show ?case by (auto simp: wrap_finish_def)
next
  case (Cons w ws)
  from Cons.prems have w: "line_ok m W A w" and ws: "\<forall>w \<in> set ws. line_ok m W A w" by simp_all
  have 1: "\<forall>l \<in> set (fst (wrap_step m W st w)). l \<noteq> [] \<and> line_ok m W A l"
    using Cons.prems(1) Cons.prems(2) by (rule wrap_step_fst)
  have 2: "snd (wrap_step m W st w) = [] \<or> line_ok m W A (snd (wrap_step m W st w))"
    using w by (rule wrap_step_snd)
  from Cons.IH [OF 1 2 ws] show ?case by simp
qed

lemma wrapText_lines_fit:
  "\<forall>l \<in> set (wrapText m txt W). l \<noteq> [] \<and> (m l \<le> W \<or> l \<in> set (split_on (CHR '' '') txt))"
proof -
  have "\<forall>l \<in> set (wrap_finish (foldl (wrap_step m W) ([], []) (split_on (CHR '' '') txt))).
          l \<noteq> [] \<and> line_ok m W (set (split_on (CHR '' '') txt)) l"
    by (rule foldl_wrap_inv) (simp_all add: line_ok_def)
  then show ?thesis by (simp add: wrapText_def line_ok_def)
qed


lemma greedy_lines_fit:
  assumes mono: "\<And>s t. m s \<le> m (s @ t)"
  shows "m (line @ concat (map ((#) (CHR '' '')) ws)) \<le> W \<Longrightarrow>
         greedy_lines m W line ws = [line @ concat (map ((#) (CHR '' '')) ws)]"
proof (induction ws arbitrary: line)
  case Nil
  then show ?case by simp
next
  case (Cons w ws)
  have "m (line @ '' '' @ w) \<le> m ((line @ '' '' @ w) @ concat (map ((#) (CHR '' '')) ws))"
    by (rule mono)
  with Cons.prems have fit: "m (line @ '' '' @ w) \<le> W" by simp
  from Cons.prems have "m ((line @ '' '' @ w) @ concat (map ((#) (CHR '' '')) ws)) \<le> W" by simp
  from Cons.IH [OF this] fit show ?case by simp
qed

lemma greedy_lines_not_Nil: "greedy_lines m W line ws \<noteq> []"
  by (induction ws arbitrary: line) auto

lemma greedy_lines_single:
  "greedy_lines m W line ws = [l] \<Longrightarrow> ws \<noteq> [] \<Longrightarrow>
     l = line @ concat (map ((#) (CHR '' '')) ws) \<and> m l \<le> W"
proof (induction ws arbitrary: line)
  case Nil
  then show ?case by simp
next
  case (Cons w ws)
  show ?case
  proof (cases "m (line @ '' '' @ w) \<le> W")
    case True
    with Cons.prems have g: "greedy_lines m W (line @ '' '' @ w) ws = [l]" by simp
    show ?thesis
    proof (cases "ws = []")
      case True
      with g \<open>m (line @ '' '' @ w) \<le> W\<close> show ?thesis by auto
    next
      case False
      from Cons.IH [OF g False] show ?thesis by auto
    qed
  next
    case False
    with Cons.prems greedy_lines_not_Nil [of m W w ws] show ?thesis by simp
  qed
qed


lemma wrap_finish_fst: "set (fst st) \<subseteq> set (wrap_finish st)"
  by (auto simp: wrap_finish_def)

lemma wrap_step_fst_mono: "set (fst st) \<subseteq> set (fst (wrap_step m W st w))"
  by (cases rule: wrap_step_cases [of st m W w]) auto

lemma foldl_wrap_fst_mono: "set (fst st) \<subseteq> set (wrap_finish (foldl (wrap_step m W) st ws))"
proof (induction ws arbitrary: st)
  case Nil
  then show ?case by (simp add: wrap_finish_fst)
next
  case (Cons w ws)
  have "set (fst st) \<subseteq> set (fst (wrap_step m W st w))" by (rule wrap_step_fst_mono)
  also have "\<dots> \<subseteq> set (wrap_finish (foldl (wrap_step m W) (wrap_step m W st w) ws))"
    by (rule Cons.IH)
  finally show ?case by simp
qed

lemma wide_current_committed:
  assumes "w \<noteq> []" "W < m w" "\<And>s. m w \<le> m (w @ '' '' @ s)"
  shows "snd st = w \<Longrightarrow> w \<in> set (wrap_finish (foldl (wrap_step m W) st ws))"
proof (induction ws arbitrary: st)
  case Nil
  with assms(1) show ?case by (simp add: wrap_finish_def)
next
  case (Cons v vs)
  have "m w \<le> m (w @ '' '' @ v)" by (rule assms(3))
  with assms(2) have "W < m (snd st @ '' '' @ v)" using Cons.prems by simp
  with Cons.prems assms(1) have "wrap_step m W st v = (fst st @ [w], v)"
    by (simp add: wrap_step_over)
  then have "w \<in> set (fst (wrap_step m W st v))" by simp
  with foldl_wrap_fst_mono [of "wrap_step m W st v" m W vs] show ?case by auto
qed

lemma wide_word_becomes_current:
  assumes "W < m w" "\<And>s. m w \<le> m (s @ '' '' @ w)"
  shows "snd (wrap_step m W st w) = w"
proof (cases rule: wrap_step_cases [of st m W w])
  case empty
  then show ?thesis by simp
next
  case over
  then show ?thesis by simp
next
  case fits
  have "m w \<le> m (snd st @ '' '' @ w)" by (rule assms(2))
  with fits(2) assms(1) show ?thesis by simp
qed

lemma wide_word_own_line:
  assumes "w \<noteq> []" "W < m w" "\<And>s. m w \<le> m (s @ '' '' @ w)" "\<And>s. m w \<le> m (w @ '' '' @ s)"
  shows "w \<in> set ws \<Longrightarrow> w \<in> set (wrap_finish (foldl (wrap_step m W) st ws))"
proof (induction ws arbitrary: st)
  case Nil
  then show ?case by simp
next
  case (Cons v vs)
  show ?case
  proof (cases "v = w")
    case True
    have "snd (wrap_step m W st w) = w"
      using assms(2) assms(3) by (rule wide_word_becomes_current)
    then have "w \<in> set (wrap_finish (foldl (wrap_step m W) (wrap_step m W st w) vs))"
      using assms(1) assms(2) assms(4) wide_current_committed [of w W m "wrap_step m W st w" vs]
      by blast
    with True show ?thesis by simp
  next
    case False
    with Cons.prems have "w \<in> set vs" by simp
    then have "w \<in> set (wrap_finish (foldl (wrap_step m W) (wrap_step m W st v) vs))"
      by (rule Cons.IH)
    then show ?thesis by simp
  qed
qed

lemma wrapText_exact_fit:
  assumes words: "[] \<notin> set (split_on (CHR '' '') txt)"
    and mono: "\<And>s t. m s \<le> m (s @ t)" and fit: "m txt \<le> W"
  shows "wrapText m txt W = [txt]"
proof -
  obtain w ws where split: "split_on (CHR '' '') txt = w # ws"
    using split_on_nonempty [of "CHR '' ''" "txt"] by (cases "split_on (CHR '' '') txt") auto
  then have join: "w @ concat (map ((#) (CHR '' '')) ws) = txt" by (rule join_split_on)
  with fit have "m (w @ concat (map ((#) (CHR '' '')) ws)) \<le> W" by simp
  with mono have "greedy_lines m W w ws = [w @ concat (map ((#) (CHR '' '')) ws)]"
    by (rule greedy_lines_fit)
  with join split wrapText_refines [OF words, of m W] show ?thesis
    by (simp add: spec_wrap_def)
qed

lemma wrapText_overflow_wraps:
  assumes words: "[] \<notin> set (split_on (CHR '' '') txt)"
    and two: "2 \<le> length (split_on (CHR '' '') txt)" and over: "W < m txt"
  shows "2 \<le> length (wrapText m txt W)"
proof (rule ccontr)
  assume "\<not> 2 \<le> length (wrapText m txt W)"
  then have short: "length (wrapText m txt W) < 2" by simp
  obtain w ws where split: "split_on (CHR '' '') txt = w # ws"
    using split_on_nonempty [of "CHR '' ''" "txt"] by (cases "split_on (CHR '' '') txt") auto
  with two have ws: "ws \<noteq> []" by auto
  from split have join: "w @ concat (map ((#) (CHR '' '')) ws) = txt" by (rule join_split_on)
  from split wrapText_refines [OF words, of m W]
  have eq: "wrapText m txt W = greedy_lines m W w ws" by (simp add: spec_wrap_def)
  with short greedy_lines_not_Nil [of m W w ws] obtain l where "greedy_lines m W w ws = [l]"
    by (cases "greedy_lines m W w ws") (auto simp: less_Suc_eq numeral_2_eq_2)
  from greedy_lines_single [OF this ws] join have "m txt \<le> W" by auto
  with over show False by simp
qed

text \<open>
  Claim C3. Line wrapping is greedy word wrap. For a text whose words are all non-empty,
  \<open>wrapText\<close> is the greedy wrapping of the specification: a word joins the current line
  while the line with it measures at most the wrap width, and otherwise the line is
  committed and the word starts the next one. For every text, each returned line is
  non-empty and either fits the wrap width or is a single word of the text. A text that
  measures exactly the wrap width stays one line (the measure growing with the text),
  and a text of at least two words that measures one pixel more is wrapped into at least
  two lines. A word wider than the wrap width is returned as a line of its own, unshortened.
\<close>

theorem wrapText_greedy_word_wrap:
  fixes m :: "string \<Rightarrow> real"
  shows "([] \<notin> set (split_on (CHR '' '') txt) \<longrightarrow>
            wrapText m txt W = spec_wrap m W (split_on (CHR '' '') txt))
       \<and> (\<forall>l \<in> set (wrapText m txt W).
            l \<noteq> [] \<and> (m l \<le> W \<or> l \<in> set (split_on (CHR '' '') txt)))
       \<and> ([] \<notin> set (split_on (CHR '' '') txt) \<and> (\<forall>s t. m s \<le> m (s @ t)) \<and> m txt = W \<longrightarrow>
            wrapText m txt W = [txt])
       \<and> ([] \<notin> set (split_on (CHR '' '') txt) \<and> 2 \<le> length (split_on (CHR '' '') txt)
            \<and> m txt = W + 1 \<longrightarrow> 2 \<le> length (wrapText m txt W))
       \<and> (w \<in> set (split_on (CHR '' '') txt) \<and> w \<noteq> [] \<and> W < m w
            \<and> (\<forall>s. m w \<le> m (s @ '' '' @ w) \<and> m w \<le> m (w @ '' '' @ s)) \<longrightarrow>
            w \<in> set (wrapText m txt W))"
proof (intro conjI impI)
  assume "[] \<notin> set (split_on (CHR '' '') txt)"
  then show "wrapText m txt W = spec_wrap m W (split_on (CHR '' '') txt)"
    by (rule wrapText_refines)
next
  show "\<forall>l \<in> set (wrapText m txt W). l \<noteq> [] \<and> (m l \<le> W \<or> l \<in> set (split_on (CHR '' '') txt))"
    by (rule wrapText_lines_fit)
next
  assume a: "[] \<notin> set (split_on (CHR '' '') txt) \<and> (\<forall>s t. m s \<le> m (s @ t)) \<and> m txt = W"
  then have "[] \<notin> set (split_on (CHR '' '') txt)" "\<And>s t. m s \<le> m (s @ t)" "m txt \<le> W"
    by simp_all
  then show "wrapText m txt W = [txt]" by (rule wrapText_exact_fit)
next
  assume a: "[] \<notin> set (split_on (CHR '' '') txt) \<and> 2 \<le> length (split_on (CHR '' '') txt)
      \<and> m txt = W + 1"
  then have "[] \<notin> set (split_on (CHR '' '') txt)" "2 \<le> length (split_on (CHR '' '') txt)"
    "W < m txt" by simp_all
  then show "2 \<le> length (wrapText m txt W)" by (rule wrapText_overflow_wraps)
next
  assume a: "w \<in> set (split_on (CHR '' '') txt) \<and> w \<noteq> [] \<and> W < m w
      \<and> (\<forall>s. m w \<le> m (s @ '' '' @ w) \<and> m w \<le> m (w @ '' '' @ s))"
  then have "w \<noteq> []" "W < m w" "\<And>s. m w \<le> m (s @ '' '' @ w)" "\<And>s. m w \<le> m (w @ '' '' @ s)"
    and "w \<in> set (split_on (CHR '' '') txt)" by simp_all
  then have "w \<in> set (wrap_finish (foldl (wrap_step m W) ([], []) (split_on (CHR '' '') txt)))"
    by (rule wide_word_own_line)
  then show "w \<in> set (wrapText m txt W)" by (simp add: wrapText_def)
qed

theorem wrapText_greedy_word_wrap_witness:
  "[] \<notin> set (split_on (CHR '' '') ''ab cd'')
   \<and> 2 \<le> length (split_on (CHR '' '') ''ab cd'')
   \<and> real (length ''ab cd'') = 4 + 1
   \<and> wrapText (\<lambda>s. real (length s)) ''ab cd'' 5 = [''ab cd'']
   \<and> wrapText (\<lambda>s. real (length s)) ''ab cd'' 5 = spec_wrap (\<lambda>s. real (length s)) 5 [''ab'', ''cd'']
   \<and> 2 \<le> length (wrapText (\<lambda>s. real (length s)) ''ab cd'' 4)
   \<and> ''abcdefgh'' \<in> set (split_on (CHR '' '') ''abcdefgh ij'')
   \<and> (5::real) < real (length ''abcdefgh'')
   \<and> ''abcdefgh'' \<in> set (wrapText (\<lambda>s. real (length s)) ''abcdefgh ij'' 5)"
  using wrapText_greedy_word_wrap [of "''ab cd''" "\<lambda>s. real (length s)" 5 "''ab''"]
    wrapText_greedy_word_wrap [of "''ab cd''" "\<lambda>s. real (length s)" 4 "''ab''"]
    wrapText_greedy_word_wrap [of "''abcdefgh ij''" "\<lambda>s. real (length s)" 5 "''abcdefgh''"]
  by (simp add: spec_wrap_def)

section \<open>Placement of the screenshot\<close>

lemma screenshot_box_capped:
  assumes "height dims * (scale settings / 100) < (height img / width img) * (width dims * (scale settings / 100))"
    and "screenshot_box dims img settings = (x, y, w, h)"
  shows "h = height dims * (scale settings / 100)" "w = (width img / height img) * h"
    "x = (width dims - w) * (pos_x settings / 100)" "y = (height dims - h) * (pos_y settings / 100)"
proof -
  from assms(1) have "screenshot_box dims img settings =
     ((width dims - (width img / height img) * (height dims * (scale settings / 100))) * (pos_x settings / 100),
      (height dims - height dims * (scale settings / 100)) * (pos_y settings / 100),
      (width img / height img) * (height dims * (scale settings / 100)),
      height dims * (scale settings / 100))"
    unfolding screenshot_box_def Let_def by (simp only: if_True)
  with assms(2) have "x = (width dims - (width img / height img) * (height dims * (scale settings / 100))) * (pos_x settings / 100)"
    "y = (height dims - height dims * (scale settings / 100)) * (pos_y settings / 100)"
    "w = (width img / height img) * (height dims * (scale settings / 100))"
    "h = height dims * (scale settings / 100)"
    by auto
  note e = this
  show "h = height dims * (scale settings / 100)" by (rule e(4))
  show "w = (width img / height img) * h" unfolding e(4) by (rule e(3))
  show "x = (width dims - w) * (pos_x settings / 100)" unfolding e(3) by (rule e(1))
  show "y = (height dims - h) * (pos_y settings / 100)" unfolding e(4) by (rule e(2))
qed

lemma screenshot_box_uncapped:
  assumes "\<not> height dims * (scale settings / 100) < (height img / width img) * (width dims * (scale settings / 100))"
    and "screenshot_box dims img settings = (x, y, w, h)"
  shows "w = width dims * (scale settings / 100)" "h = (height img / width img) * w"
    "x = (width dims - w) * (pos_x settings / 100)" "y = (height dims - h) * (pos_y settings / 100)"
proof -
  from assms(1) have "screenshot_box dims img settings =
     ((width dims - width dims * (scale settings / 100)) * (pos_x settings / 100),
      (height dims - (height img / width img) * (width dims * (scale settings / 100))) * (pos_y settings / 100),
      width dims * (scale settings / 100),
      (height img / width img) * (width dims * (scale settings / 100)))"
    unfolding screenshot_box_def Let_def by (simp only: if_False)
  with assms(2) have "x = (width dims - width dims * (scale settings / 100)) * (pos_x settings / 100)"
    "y = (height dims - (height img / width img) * (width dims * (scale settings / 100))) * (pos_y settings / 100)"
    "w = width dims * (scale settings / 100)"
    "h = (height img / width img) * (width dims * (scale settings / 100))"
    by auto
  note e = this
  show "w = width dims * (scale settings / 100)" by (rule e(3))
  show "h = (height img / width img) * w" unfolding e(3) by (rule e(4))
  show "x = (width dims - w) * (pos_x settings / 100)" unfolding e(3) by (rule e(1))
  show "y = (height dims - h) * (pos_y settings / 100)" unfolding e(4) by (rule e(2))
qed

lemma screenshot_box_xy:
  assumes "screenshot_box dims img settings = (x, y, w, h)"
  shows "x = (width dims - w) * (pos_x settings / 100)" "y = (height dims - h) * (pos_y settings / 100)"
proof -
  have "x = (width dims - w) * (pos_x settings / 100) \<and> y = (height dims - h) * (pos_y settings / 100)"
  proof (cases "height dims * (scale settings / 100) < (height img / width img) * (width dims * (scale settings / 100))")
    case True
    note c = screenshot_box_capped [OF True assms]
    from c(3) c(4) show ?thesis ..
  next
    case False
    note u = screenshot_box_uncapped [OF False assms]
    from u(3) u(4) show ?thesis ..
  qed
  then show "x = (width dims - w) * (pos_x settings / 100)" "y = (height dims - h) * (pos_y settings / 100)"
    by blast+
qed

lemma interpolate_bounds:
  fixes d a :: real
  assumes "0 \<le> d" "0 \<le> a" "a \<le> 1"
  shows "0 \<le> d * a" "d * a \<le> d"
proof -
  from assms show "0 \<le> d * a" by simp
  from assms have "d * a \<le> d * 1" by (intro mult_left_mono) simp_all
  then show "d * a \<le> d" by simp
qed

lemma ratio_cancel:
  fixes a b c :: real
  assumes "0 < a" "0 < b"
  shows "(a / b) * ((b / a) * c) = c"
  using assms by simp

lemma box_fits_scaled:
  assumes img: "0 < width img" "0 < height img"
    and box: "screenshot_box dims img settings = (x, y, w, h)"
  shows "w \<le> width dims * (scale settings / 100)" "h \<le> height dims * (scale settings / 100)"
proof -
  let ?s = "scale settings / 100"
  let ?h0 = "(height img / width img) * (width dims * ?s)"
  show "w \<le> width dims * ?s"
  proof (cases "height dims * ?s < ?h0")
    case True
    from screenshot_box_capped [OF True box]
    have h: "h = height dims * ?s" and w: "w = (width img / height img) * h" by blast+
    from img have pos: "0 < width img / height img" by simp
    from True pos have "(width img / height img) * (height dims * ?s) < (width img / height img) * ?h0"
      by (rule mult_strict_left_mono)
    also from img have "(width img / height img) * ?h0 = width dims * ?s"
      by (rule ratio_cancel)
    finally have "(width img / height img) * (height dims * ?s) < width dims * ?s" .
    moreover have "w = (width img / height img) * (height dims * ?s)" unfolding w h ..
    ultimately show ?thesis by (simp only: less_imp_le)
  next
    case False
    from screenshot_box_uncapped [OF False box] show ?thesis by simp
  qed
  show "h \<le> height dims * ?s"
  proof (cases "height dims * ?s < ?h0")
    case True
    from screenshot_box_capped [OF True box] show ?thesis by simp
  next
    case False
    note u = screenshot_box_uncapped [OF False box]
    have "h = ?h0" by (simp only: u(2) u(1))
    with False show ?thesis by simp
  qed
qed

lemma box_aspect:
  assumes img: "0 < width img" "0 < height img"
    and box: "screenshot_box dims img settings = (x, y, w, h)"
  shows "h * width img = w * height img"
proof (cases "height dims * (scale settings / 100) < (height img / width img) * (width dims * (scale settings / 100))")
  case True
  from screenshot_box_capped [OF True box] img show ?thesis by simp
next
  case False
  from screenshot_box_uncapped [OF False box] img show ?thesis by simp
qed

lemma box_within:
  assumes img: "0 < width img" "0 < height img"
    and box: "screenshot_box dims img settings = (x, y, w, h)"
    and s: "0 < scale settings" "scale settings \<le> 100"
    and px: "0 \<le> pos_x settings" "pos_x settings \<le> 100"
    and py: "0 \<le> pos_y settings" "pos_y settings \<le> 100"
    and d: "0 \<le> width dims" "0 \<le> height dims"
  shows "0 \<le> x \<and> 0 \<le> y \<and> x + w \<le> width dims \<and> y + h \<le> height dims"
proof -
  let ?s = "scale settings / 100"
  from s have s01: "0 \<le> ?s" "?s \<le> 1" by simp_all
  from interpolate_bounds(2) [OF d(1) s01] have "width dims * ?s \<le> width dims" .
  with box_fits_scaled(1) [OF img box] have w: "0 \<le> width dims - w" by simp
  from interpolate_bounds(2) [OF d(2) s01] have "height dims * ?s \<le> height dims" .
  with box_fits_scaled(2) [OF img box] have h: "0 \<le> height dims - h" by simp
  have xy: "x = (width dims - w) * (pos_x settings / 100)" "y = (height dims - h) * (pos_y settings / 100)"
    using box by (rule screenshot_box_xy)+
  from px have a: "0 \<le> pos_x settings / 100" "pos_x settings / 100 \<le> 1" by simp_all
  from py have b: "0 \<le> pos_y settings / 100" "pos_y settings / 100 \<le> 1" by simp_all
  from interpolate_bounds [OF w a] xy(1) have "0 \<le> x" "x \<le> width dims - w" by simp_all
  moreover from interpolate_bounds [OF h b] xy(2) have "0 \<le> y" "y \<le> height dims - h" by simp_all
  ultimately show ?thesis by simp
qed


lemma drawScreenshot_draws_box:
  assumes "screenshot_box dims img settings = (x, y, w, h)"
    and "drawScreenshotToContext c dims (Some img) settings = Inr c'"
  shows "DrawImage img x y w h \<in> set (ops c')"
  using assms
  by (auto simp: drawScreenshotToContext_def drawDeviceFrameToContext_def draw_def Let_def
        split: sum.splits option.splits if_splits)

text \<open>
  Claim C1. For a source image of positive size, the box \<open>(x, y, w, h)\<close> that
  \<open>drawScreenshotToContext\<close> computes has width \<open>dims.width * scale / 100\<close> and the height
  of the source's aspect ratio, unless that height exceeds \<open>dims.height * scale / 100\<close>:
  then the height is that bound and the width follows from it. In both cases the aspect
  ratio of the source is kept, the top-left corner is
  \<open>((dims.width - w) * x / 100, (dims.height - h) * y / 100)\<close>, and the image is drawn
  into exactly this box.
\<close>

theorem drawScreenshotToContext_box:
  assumes "0 < width img" "0 < height img"
    and "screenshot_box dims img settings = (x, y, w, h)"
  shows "(if height dims * (scale settings / 100)
             < (height img / width img) * (width dims * (scale settings / 100))
          then h = height dims * (scale settings / 100) \<and> w = (width img / height img) * h
          else w = width dims * (scale settings / 100) \<and> h = (height img / width img) * w)
       \<and> h * width img = w * height img
       \<and> x = (width dims - w) * (pos_x settings / 100)
       \<and> y = (height dims - h) * (pos_y settings / 100)
       \<and> (\<forall>c c'. drawScreenshotToContext c dims (Some img) settings = Inr c'
             \<longrightarrow> DrawImage img x y w h \<in> set (ops c'))"
proof (intro conjI allI impI)
  show "if height dims * (scale settings / 100)
             < (height img / width img) * (width dims * (scale settings / 100))
        then h = height dims * (scale settings / 100) \<and> w = (width img / height img) * h
        else w = width dims * (scale settings / 100) \<and> h = (height img / width img) * w"
  proof (cases "height dims * (scale settings / 100)
             < (height img / width img) * (width dims * (scale settings / 100))")
    case True
    note c = screenshot_box_capped [OF True assms(3)]
    from True c(1) c(2) show ?thesis by (simp only: if_True simp_thms)
  next
    case False
    note u = screenshot_box_uncapped [OF False assms(3)]
    from False u(1) u(2) show ?thesis by (simp only: if_False simp_thms)
  qed
  show "h * width img = w * height img"
    using assms by (rule box_aspect)
  show "x = (width dims - w) * (pos_x settings / 100)"
    using assms(3) by (rule screenshot_box_xy)
  show "y = (height dims - h) * (pos_y settings / 100)"
    using assms(3) by (rule screenshot_box_xy)
next
  fix c c'
  assume "drawScreenshotToContext c dims (Some img) settings = Inr c'"
  with assms(3) show "DrawImage img x y w h \<in> set (ops c')"
    by (rule drawScreenshot_draws_box)
qed

text \<open>
  Claim C8. For a scale in \<open>(0, 100]\<close>, positions \<open>x\<close> and \<open>y\<close> in \<open>[0, 100]\<close>, a source
  image of positive size and a canvas of non-negative size, the box of the screenshot
  lies within the canvas: its top-left corner is not negative and the corner plus the
  size of the box does not exceed the size of the canvas.
\<close>

theorem screenshot_box_within_canvas:
  assumes "0 < width img" "0 < height img"
    and "screenshot_box dims img settings = (x, y, w, h)"
    and "0 < scale settings" "scale settings \<le> 100"
    and "0 \<le> pos_x settings" "pos_x settings \<le> 100"
    and "0 \<le> pos_y settings" "pos_y settings \<le> 100"
    and "0 \<le> width dims" "0 \<le> height dims"
  shows "0 \<le> x \<and> 0 \<le> y \<and> x + w \<le> width dims \<and> y + h \<le> height dims"
  using assms by (rule box_within)

lemma tall_box: "screenshot_box iphone_6_9 tall_image defaults_screenshot_init = (325.4, 473.22, 669.2, 2007.6)"
  by (simp add: screenshot_box_def iphone_6_9_def tall_image_def defaults_screenshot_init_def Let_def)

lemma wide_box: "screenshot_box iphone_6_9 wide_image defaults_screenshot_init = (198, 1323.3, 924, 462)"
  by (simp add: screenshot_box_def iphone_6_9_def wide_image_def defaults_screenshot_init_def Let_def)

lemma defaults_screenshot_fields:
  "cornerRadius defaults_screenshot_init = Some 24"
  "frame defaults_screenshot_init = Some \<lparr>frame_enabled = False, frame_color = ''#1d1d1f'', frame_width = 12,
                     frame_opacity = 100\<rparr>"
  by (simp_all add: defaults_screenshot_init_def)

lemma wide_drawn:
  "\<exists>c'. drawScreenshotToContext blank_canvas iphone_6_9 (Some wide_image) defaults_screenshot_init = Inr c'"
  by (simp add: drawScreenshotToContext_def wide_box roundRect_def defaults_screenshot_fields Let_def)

theorem drawScreenshotToContext_box_witness:
  "screenshot_box iphone_6_9 tall_image defaults_screenshot_init = (325.4, 473.22, 669.2, 2007.6)
   \<and> (2007.6::real) * width tall_image = 669.2 * height tall_image
   \<and> screenshot_box iphone_6_9 wide_image defaults_screenshot_init = (198, 1323.3, 924, 462)
   \<and> (\<exists>c'. drawScreenshotToContext blank_canvas iphone_6_9 (Some wide_image) defaults_screenshot_init = Inr c'
          \<and> DrawImage wide_image 198 1323.3 924 462 \<in> set (ops c'))"
proof -
  have t: "0 < width tall_image" "0 < height tall_image" by (simp_all add: tall_image_def)
  have w: "0 < width wide_image" "0 < height wide_image" by (simp_all add: wide_image_def)
  from drawScreenshotToContext_box [OF t tall_box] drawScreenshotToContext_box [OF w wide_box]
    tall_box wide_box wide_drawn
  show ?thesis by blast
qed

theorem screenshot_box_within_canvas_witness:
  "screenshot_box iphone_6_9 tall_image defaults_screenshot_init = (325.4, 473.22, 669.2, 2007.6)
   \<and> (0::real) \<le> 325.4 \<and> (0::real) \<le> 473.22
   \<and> (325.4::real) + 669.2 \<le> width iphone_6_9 \<and> (473.22::real) + 2007.6 \<le> height iphone_6_9"
proof -
  have t: "0 < width tall_image" "0 < height tall_image" by (simp_all add: tall_image_def)
  have s: "0 < scale defaults_screenshot_init" "scale defaults_screenshot_init \<le> 100"
    "0 \<le> pos_x defaults_screenshot_init" "pos_x defaults_screenshot_init \<le> 100"
    "0 \<le> pos_y defaults_screenshot_init" "pos_y defaults_screenshot_init \<le> 100"
    by (simp_all add: defaults_screenshot_init_def)
  have d: "0 \<le> width iphone_6_9" "0 \<le> height iphone_6_9" by (simp_all add: iphone_6_9_def)
  from screenshot_box_within_canvas [OF t tall_box s d] tall_box show ?thesis by simp
qed


section \<open>The noise pass\<close>

lemma nth_noisy_channel:
  "n < length data \<Longrightarrow>
   noisy_channel data j delta ! n = (if n = j then noisy_value (data ! n) delta else data ! n)"
  by (simp add: noisy_channel_def)

lemma nth_noisy_pixel:
  "n < length data \<Longrightarrow>
   noisy_pixel data i delta ! n =
     (if n = i \<or> n = i + 1 \<or> n = i + 2 then noisy_value (data ! n) delta else data ! n)"
  by (simp add: noisy_pixel_def nth_noisy_channel length_noisy_channel)

lemma length_noise_loop: "length (noise_loop random a k i data) = length data"
proof (induction random a k i data rule: noise_loop.induct)
  case (1 random a k i data)
  show ?case
  proof (cases "i < length data")
    case True
    from "1.IH" [OF True]
    have "length (noise_loop random a (Suc k) (i + 4) (noisy_pixel data i (noise_delta random a k)))
          = length data"
      by (simp only: length_noisy_pixel)
    with True show ?thesis by (subst noise_loop.simps) (simp only: if_True)
  next
    case False
    then show ?thesis by (subst noise_loop.simps) (simp only: if_False)
  qed
qed

lemma shift_div_mod:
  fixes n i :: nat
  assumes "i + 4 \<le> n"
  shows "(n - i) mod 4 = (n - (i + 4)) mod 4" "(n - i) div 4 = Suc ((n - (i + 4)) div 4)"
proof -
  from assms obtain m where m: "n = i + 4 + m" using le_Suc_ex by blast
  have a: "n - i = m + 4" and b: "n - (i + 4) = m" unfolding m by simp_all
  show "(n - i) mod 4 = (n - (i + 4)) mod 4" unfolding a b by simp
  show "(n - i) div 4 = Suc ((n - (i + 4)) div 4)" unfolding a b by simp
qed

lemma nth_noise_loop:
  "n < length data \<Longrightarrow>
   noise_loop random a k i data ! n =
     (if i \<le> n \<and> (n - i) mod 4 < 3
      then noisy_value (data ! n) (noise_delta random a (k + (n - i) div 4))
      else data ! n)"
proof (induction random a k i data arbitrary: n rule: noise_loop.induct)
  case (1 random a k i data)
  show ?case
  proof (cases "i < length data")
    case False
    have "noise_loop random a k i data = data"
      using False by (subst noise_loop.simps) (simp only: if_False)
    moreover from False "1.prems" have "\<not> i \<le> n" by simp
    ultimately show ?thesis by simp
  next
    case True
    let ?d = "noise_delta random a k"
    let ?data = "noisy_pixel data i ?d"
    have n: "n < length ?data" using "1.prems" by (simp only: length_noisy_pixel)
    have IH: "noise_loop random a (Suc k) (i + 4) ?data ! n =
       (if i + 4 \<le> n \<and> (n - (i + 4)) mod 4 < 3
        then noisy_value (?data ! n) (noise_delta random a (Suc k + (n - (i + 4)) div 4))
        else ?data ! n)"
      using True n by (rule "1.IH")
    have unfold: "noise_loop random a k i data ! n = noise_loop random a (Suc k) (i + 4) ?data ! n"
      using True by (subst noise_loop.simps) (simp only: if_True)
    show ?thesis
    proof (cases "i + 4 \<le> n")
      case far: True
      then have same: "?data ! n = data ! n" using "1.prems" by (simp add: nth_noisy_pixel)
      note m = shift_div_mod [OF far]
      from far have "i \<le> n" by simp
      with far IH same m unfold show ?thesis by simp
    next
      case near: False
      show ?thesis
      proof (cases "i \<le> n")
        case True
        with near have "n - i < 4" by simp
        then have dm: "(n - i) div 4 = 0" "(n - i) mod 4 = n - i" by simp_all
        from True near have "?data ! n = (if n - i < 3 then noisy_value (data ! n) ?d else data ! n)"
          using "1.prems" by (auto simp: nth_noisy_pixel)
        with near IH unfold dm True show ?thesis by simp
      next
        case False
        then have "?data ! n = data ! n" using "1.prems" by (simp add: nth_noisy_pixel)
        with near IH unfold False show ?thesis by simp
      qed
    qed
  qed
qed


lemma roundTiesToEven_bounds:
  assumes "0 \<le> v" "v \<le> 255"
  shows "0 \<le> roundTiesToEven v" "roundTiesToEven v \<le> 255"
proof -
  let ?f = "\<lfloor>v\<rfloor>"
  from assms have f0: "0 \<le> ?f" by simp
  have "?f \<le> \<lfloor>255 :: real\<rfloor>" using assms(2) by (rule floor_mono)
  then have f255: "?f \<le> 255" by simp
  have cases: "roundTiesToEven v = ?f \<or> (roundTiesToEven v = ?f + 1 \<and> 1 / 2 \<le> v - of_int ?f)"
    by (auto simp: roundTiesToEven_def Let_def)
  from cases f0 show "0 \<le> roundTiesToEven v" by auto
  show "roundTiesToEven v \<le> 255"
  proof (cases "roundTiesToEven v = ?f")
    case True
    with f255 show ?thesis by simp
  next
    case False
    with cases have up: "roundTiesToEven v = ?f + 1" and half: "1 / 2 \<le> v - of_int ?f" by auto
    have "?f \<noteq> 255"
    proof
      assume "?f = 255"
      with half have "255 + 1 / 2 \<le> v" by simp
      with assms(2) show False by simp
    qed
    with f255 have "?f + 1 \<le> 255" by arith
    with up show ?thesis by simp
  qed
qed

lemma roundTiesToEven_int: "roundTiesToEven (of_int z) = z"
  by (simp add: roundTiesToEven_def)

lemma unat_toUint8Clamp:
  "unat (toUint8Clamp v) = nat (roundTiesToEven (max 0 (min 255 v)))"
proof (cases "v \<le> 0")
  case True
  then have "max 0 (min 255 v) = 0" by simp
  moreover have "roundTiesToEven 0 = 0" using roundTiesToEven_int [of 0] by simp
  ultimately show ?thesis using True by (simp add: toUint8Clamp_def)
next
  case False
  show ?thesis
  proof (cases "255 \<le> v")
    case True
    then have "max 0 (min 255 v) = 255" by simp
    moreover have "roundTiesToEven 255 = 255" using roundTiesToEven_int [of 255] by simp
    ultimately show ?thesis using True False by (simp add: toUint8Clamp_def)
  next
    case v: False
    with False have m: "max 0 (min 255 v) = v" by simp
    from False v have "0 \<le> v" "v \<le> 255" by simp_all
    then have b: "0 \<le> roundTiesToEven v" "roundTiesToEven v \<le> 255"
      by (rule roundTiesToEven_bounds)+
    then have "unat (word_of_int (roundTiesToEven v) :: 8 word) = nat (roundTiesToEven v)"
      by (simp add: unat_eq_nat_uint uint_word_of_int take_bit_int_eq_self)
    with False v m show ?thesis by (simp add: toUint8Clamp_def)
  qed
qed

lemma unat_noisy_value:
  "unat (noisy_value b delta) = nat (roundTiesToEven (max 0 (min 255 (real (unat b) + delta))))"
  unfolding noisy_value_def
  using unat_toUint8Clamp [of "max 0 (min 255 (real (unat b) + delta))"] by simp


text \<open>
  Claim C10. When the pixels can be read back, the noise pass writes back an array of
  the same length in which every fourth entry, the alpha channel of a pixel, is what it
  was, and each of the entries of the red, green and blue channels of pixel \<open>p\<close> is its
  old value plus the one delta of that pixel, \<open>(random p - 0.5) * 255 * intensity / 100\<close>,
  clamped to \<open>[0, 255]\<close> and rounded on the store.
\<close>

theorem drawNoiseToContext_keeps_alpha:
  assumes "getImageData env c (width dims) (height dims) = Inr data"
  shows "\<exists>out. drawNoiseToContext random env c dims intensity = Inr (draw c [PutImageData out 0 0])
      \<and> length out = length data
      \<and> (\<forall>n < length data.
            if n mod 4 = 3 then out ! n = data ! n
            else out ! n = noisy_value (data ! n) (noise_delta random (intensity / 100) (n div 4))
               \<and> unat (out ! n) =
                   nat (roundTiesToEven (max 0 (min 255 (real (unat (data ! n))
                          + (random (n div 4) - 0.5) * 255 * (intensity / 100))))))"
proof -
  let ?out = "noise_loop random (intensity / 100) 0 0 data"
  have run: "drawNoiseToContext random env c dims intensity = Inr (draw c [PutImageData ?out 0 0])"
    using assms by (simp add: drawNoiseToContext_def)
  have len: "length ?out = length data" by (rule length_noise_loop)
  have pt: "if n mod 4 = 3 then ?out ! n = data ! n
            else ?out ! n = noisy_value (data ! n) (noise_delta random (intensity / 100) (n div 4))
               \<and> unat (?out ! n) =
                   nat (roundTiesToEven (max 0 (min 255 (real (unat (data ! n))
                          + (random (n div 4) - 0.5) * 255 * (intensity / 100)))))"
    if n: "n < length data" for n
  proof -
    have lt: "n mod 4 < 4" by simp
    from nth_noise_loop [OF n, of random "intensity / 100" 0 0]
    have nth: "?out ! n = (if n mod 4 < 3
        then noisy_value (data ! n) (noise_delta random (intensity / 100) (n div 4)) else data ! n)"
      by simp
    show ?thesis
    proof (cases "n mod 4 = 3")
      case True
      with nth show ?thesis by simp
    next
      case False
      with lt have "n mod 4 < 3" by arith
      with nth have v: "?out ! n = noisy_value (data ! n) (noise_delta random (intensity / 100) (n div 4))"
        by simp
      have "unat (noisy_value (data ! n) (noise_delta random (intensity / 100) (n div 4))) =
            nat (roundTiesToEven (max 0 (min 255 (real (unat (data ! n))
                          + (random (n div 4) - 0.5) * 255 * (intensity / 100)))))"
        unfolding unat_noisy_value noise_delta_def ..
      with v False show ?thesis by simp
    qed
  qed
  from run len pt show ?thesis by blast
qed

theorem drawNoiseToContext_keeps_alpha_witness:
  "getImageData sample_env blank_canvas (width iphone_6_9) (height iphone_6_9) = Inr [0, 0, 0, 255]
   \<and> (\<exists>out. drawNoiseToContext (\<lambda>k. 1) sample_env blank_canvas iphone_6_9 10
              = Inr (draw blank_canvas [PutImageData out 0 0])
          \<and> length out = 4 \<and> out ! 3 = 255 \<and> unat (out ! 0) = 13 \<and> unat (out ! 2) = 13)"
proof -
  let ?data = "[0, 0, 0, 255 :: 8 word]"
  have g: "getImageData sample_env blank_canvas (width iphone_6_9) (height iphone_6_9) = Inr ?data"
    by (simp add: sample_env_def)
  have r: "roundTiesToEven (51 / 4) = 13" by (simp add: roundTiesToEven_def)
  from drawNoiseToContext_keeps_alpha [OF g, of "\<lambda>k. 1" 10]
  obtain out where run: "drawNoiseToContext (\<lambda>k. 1) sample_env blank_canvas iphone_6_9 10
              = Inr (draw blank_canvas [PutImageData out 0 0])"
    and len: "length out = length ?data"
    and pt: "\<forall>n < length ?data.
            if n mod 4 = 3 then out ! n = ?data ! n
            else out ! n = noisy_value (?data ! n) (noise_delta (\<lambda>k. 1) (10 / 100) (n div 4))
               \<and> unat (out ! n) =
                   nat (roundTiesToEven (max 0 (min 255 (real (unat (?data ! n))
                          + (1 - 0.5) * 255 * (10 / 100)))))"
    by blast
  from pt have "if (3::nat) mod 4 = 3 then out ! 3 = ?data ! 3 else False" by simp
  then have a: "out ! 3 = 255" by simp
  from pt have "unat (out ! 0) = nat (roundTiesToEven (max 0 (min 255 (real (unat (?data ! 0))
                          + (1 - 0.5) * 255 * (10 / 100)))))" by force
  with r have b: "unat (out ! 0) = 13" by simp
  from pt have "unat (out ! 2) = nat (roundTiesToEven (max 0 (min 255 (real (unat (?data ! 2))
                          + (1 - 0.5) * 255 * (10 / 100)))))" by force
  with r have c: "unat (out ! 2) = 13" by simp
  from len have l: "length out = 4" by simp
  from g run l a b c show ?thesis by blast
qed


section \<open>The orchestrator\<close>

lemma render_without_noise:
  assumes "array_get (screenshots st) index = Some entry" "\<not> noise (background entry)"
  shows "renderScreenshotToCanvas random1 env st index c dims ps
       = renderScreenshotToCanvas random2 env st index c dims ps"
proof (cases "unit_image entry")
  case None
  with assms show ?thesis by (simp add: renderScreenshotToCanvas_def)
next
  case (Some img)
  with assms show ?thesis by (simp add: renderScreenshotToCanvas_def Let_def)
qed

lemma render_no_entry:
  assumes "array_get (screenshots st) index = None"
  shows "renderScreenshotToCanvas random env st index c dims ps = Inr c"
  using assms by (simp add: renderScreenshotToCanvas_def)

lemma render_no_image:
  assumes "array_get (screenshots st) index = Some entry" "unit_image entry = None"
  shows "renderScreenshotToCanvas random env st index c dims ps = Inr c"
  using assms by (simp add: renderScreenshotToCanvas_def)

lemma sized_canonical:
  "(set_canvas_height h (set_canvas_width w c))\<lparr>style_width := sw, style_height := sh\<rparr>
   = \<lparr>canvas_width = w, canvas_height = h, style_width = sw, style_height = sh, ops = []\<rparr>"
  by (cases c) (simp add: set_canvas_height_def set_canvas_width_def)

lemma render_resets_canvas:
  assumes "array_get (screenshots st) index = Some entry" "unit_image entry \<noteq> None"
  shows "renderScreenshotToCanvas random env st index c1 dims ps
       = renderScreenshotToCanvas random env st index c2 dims ps"
proof -
  from assms(2) obtain img where "unit_image entry = Some img" by blast
  with assms(1) show ?thesis
    unfolding renderScreenshotToCanvas_def Let_def sized_canonical by simp
qed


lemma render_idempotent:
  assumes off: "\<forall>entry. array_get (screenshots st) index = Some entry \<longrightarrow> \<not> noise (background entry)"
    and run: "renderScreenshotToCanvas random1 env st index c dims ps = Inr c'"
  shows "renderScreenshotToCanvas random2 env st index c' dims ps = Inr c'"
proof (cases "array_get (screenshots st) index")
  case None
  with run have "c' = c" by (simp add: render_no_entry)
  with None show ?thesis by (simp add: render_no_entry)
next
  case (Some entry)
  show ?thesis
  proof (cases "unit_image entry = None")
    case True
    with Some run have "c' = c" by (simp add: render_no_image)
    with Some True show ?thesis by (simp add: render_no_image)
  next
    case False
    with Some have "renderScreenshotToCanvas random2 env st index c' dims ps
        = renderScreenshotToCanvas random2 env st index c dims ps"
      by (rule render_resets_canvas)
    also from Some off have "\<dots> = renderScreenshotToCanvas random1 env st index c dims ps"
      by (simp add: render_without_noise [of st index entry random2 env c dims ps random1])
    finally show ?thesis using run by simp
  qed
qed

text \<open>
  Claim C2. When the noise pass is disabled for the unit, the result of the orchestrator
  does not depend on the values that \<open>Math.random()\<close> returns, so two invocations on
  identical inputs give identical results, operation for operation and hence byte for
  byte; and since the orchestrator resets the target surface first, invoking it again
  on the surface it has just produced gives that same surface again. The canvas calls
  and the 3D renderer are functions of their arguments in this model; the random source
  enters the orchestrator only through the noise pass.
\<close>

theorem renderScreenshotToCanvas_deterministic:
  assumes "\<forall>entry. array_get (screenshots st) index = Some entry \<longrightarrow> \<not> noise (background entry)"
  shows "renderScreenshotToCanvas random1 env st index c dims ps
           = renderScreenshotToCanvas random2 env st index c dims ps
       \<and> (\<forall>c'. renderScreenshotToCanvas random1 env st index c dims ps = Inr c'
             \<longrightarrow> renderScreenshotToCanvas random2 env st index c' dims ps = Inr c')"
proof (intro conjI allI impI)
  show "renderScreenshotToCanvas random1 env st index c dims ps
           = renderScreenshotToCanvas random2 env st index c dims ps"
  proof (cases "array_get (screenshots st) index")
    case None
    then show ?thesis by (simp add: render_no_entry)
  next
    case (Some entry)
    with assms have "\<not> noise (background entry)" by simp
    with Some show ?thesis by (rule render_without_noise)
  qed
next
  fix c'
  assume "renderScreenshotToCanvas random1 env st index c dims ps = Inr c'"
  with assms show "renderScreenshotToCanvas random2 env st index c' dims ps = Inr c'"
    by (rule render_idempotent)
qed

lemma sample_lookup: "array_get (screenshots (state_with [Some sample_entry])) 0 = Some sample_entry"
  by (simp add: array_get_def state_with_def)

lemma sample_noise_off: "\<not> noise (background sample_entry)"
  by (simp add: sample_entry_def defaults_background_init_def)

theorem renderScreenshotToCanvas_deterministic_witness:
  "array_get (screenshots (state_with [Some sample_entry])) 0 = Some sample_entry
   \<and> \<not> noise (background sample_entry)
   \<and> renderScreenshotToCanvas (\<lambda>k. 0) sample_env (state_with [Some sample_entry]) 0 blank_canvas iphone_6_9 1
     = renderScreenshotToCanvas (\<lambda>k. 1) sample_env (state_with [Some sample_entry]) 0 blank_canvas iphone_6_9 1"
proof -
  have "\<forall>entry. array_get (screenshots (state_with [Some sample_entry])) 0 = Some entry
          \<longrightarrow> \<not> noise (background entry)"
    by (simp add: sample_lookup sample_noise_off)
  from renderScreenshotToCanvas_deterministic [OF this, of "\<lambda>k. 0" sample_env blank_canvas iphone_6_9 1 "\<lambda>k. 1"]
    sample_lookup sample_noise_off
  show ?thesis by blast
qed

lemma noise_depends_on_random:
  "drawNoiseToContext (\<lambda>k. 1 / 2) sample_env blank_canvas iphone_6_9 10
     = Inr (draw blank_canvas [PutImageData [0, 0, 0, 255] 0 0])
   \<and> drawNoiseToContext (\<lambda>k. 1) sample_env blank_canvas iphone_6_9 10
     = Inr (draw blank_canvas [PutImageData [13, 13, 13, 255] 0 0])"
  by (simp add: drawNoiseToContext_def sample_env_def noise_loop.simps noisy_pixel_def
      noisy_channel_def noisy_value_def noise_delta_def toUint8Clamp_def roundTiesToEven_def)


section \<open>The export and a unit without image\<close>



subsection \<open>A selected unit without image\<close>






subsection \<open>A selected slot that is empty\<close>



subsection \<open>The sample project with a unit without image\<close>









subsection \<open>The sample project with an empty slot\<close>














section \<open>Setters of nested settings\<close>

lemma split_on_absent: "sep \<notin> set s \<Longrightarrow> split_on sep s = [s]"
  by (induction s) auto

lemma assign_key_path: "assign_key obj key v = assign_path obj (split_on (CHR ''.'') key) v"
  by (simp add: assign_key_def split_on_absent)

lemma objects_along_JObj: "objects_along obj ks \<Longrightarrow> \<exists>kv. obj = JObj kv"
  by (cases obj) simp_all

lemma js_get_own: "map_of kv k = Some child \<Longrightarrow> js_get (JObj kv) k = Returns child"
  by simp

lemma js_put_own:
  "map_of kv k = Some child \<Longrightarrow> js_put (JObj kv) k v = Returns (JObj (AList.update k v kv))"
  by simp

lemma js_get_other:
  "b \<noteq> k \<Longrightarrow> js_get (JObj (AList.update k v kv)) b = js_get (JObj kv) b"
  by (simp add: update_conv')

lemma js_get_updated: "js_get (JObj (AList.update k v kv)) k = Returns v"
  by (simp add: update_conv')

text \<open>
  Along own properties that hold objects the assignment returns, the value is then read
  at the end of the path, and every path that parts ways with it reads what it read
  before.
\<close>

lemma assign_path_objects:
  "parts \<noteq> [] \<Longrightarrow> objects_along obj (butlast parts) \<Longrightarrow> last parts \<noteq> ''__proto__'' \<Longrightarrow>
   \<exists>obj'. assign_path obj parts v = Returns obj' \<and> read_path obj' parts = Returns v
     \<and> (\<forall>q. parts_ways parts q \<longrightarrow> read_path obj' q = read_path obj q)"
proof (induction obj parts v rule: assign_path.induct)
  case (1 obj v)
  then show ?case by simp
next
  case (2 obj k v)
  then obtain kv where obj: "obj = JObj kv" using objects_along_JObj by fastforce
  from "2.prems"(3) have k: "k \<noteq> ''__proto__''" by simp
  let ?obj' = "JObj (AList.update k v kv)"
  from obj k have a: "assign_path obj [k] v = Returns ?obj'" by simp
  have r: "read_path ?obj' [k] = Returns v" by (simp add: update_conv')
  have f: "read_path ?obj' q = read_path obj q" if "parts_ways [k] q" for q
  proof (cases q)
    case Nil
    with that show ?thesis by simp
  next
    case (Cons b q')
    with that have "b \<noteq> k" by auto
    then have "js_get ?obj' b = js_get (JObj kv) b" by (rule js_get_other)
    with Cons obj show ?thesis by (simp only: read_path.simps)
  qed
  from a r f show ?case by blast
next
  case (3 obj k k' ks v)
  from "3.prems"(2) obtain kv where obj: "obj = JObj kv" using objects_along_JObj by blast
  with "3.prems"(2) obtain child where child: "map_of kv k = Some child"
    and along: "objects_along child (butlast (k' # ks))"
    by (auto split: option.splits)
  from obj child have get: "js_get obj k = Returns child" by simp
  from "3.prems"(3) have lst: "last (k' # ks) \<noteq> ''__proto__''" by simp
  from "3.IH" [OF get _ along lst] obtain child' where
    a: "assign_path child (k' # ks) v = Returns child'"
    and r: "read_path child' (k' # ks) = Returns v"
    and f: "\<And>q. parts_ways (k' # ks) q \<Longrightarrow> read_path child' q = read_path child q"
    by auto
  let ?obj' = "JObj (AList.update k child' kv)"
  from child have put: "js_put (JObj kv) k child' = Returns ?obj'" by (rule js_put_own)
  from obj get a put have a': "assign_path obj (k # k' # ks) v = Returns ?obj'"
    by simp
  have r': "read_path ?obj' (k # k' # ks) = Returns v"
    using r by (simp add: update_conv')
  have f': "read_path ?obj' q = read_path obj q" if pw: "parts_ways (k # k' # ks) q" for q
  proof (cases q)
    case Nil
    with pw show ?thesis by simp
  next
    case (Cons b q')
    show ?thesis
    proof (cases "b = k")
      case True
      with pw Cons have "parts_ways (k' # ks) q'" by simp
      then have "read_path child' q' = read_path child q'" by (rule f)
      moreover have "js_get ?obj' k = Returns child'" by (rule js_get_updated)
      moreover note get
      ultimately show ?thesis using Cons True by (simp only: read_path.simps outcome.case)
    next
      case False
      then have "js_get ?obj' b = js_get (JObj kv) b" by (rule js_get_other)
      with Cons obj show ?thesis by (simp only: read_path.simps)
    qed
  qed
  from a' r' f' show ?case by blast
qed

lemma setScreenshotSetting_assigns:
  assumes "getCurrentScreenshot st = Some entry"
    and "objects_along (screenshot entry) (butlast (split_on (CHR ''.'') key))"
    and "last (split_on (CHR ''.'') key) \<noteq> ''__proto__''"
  shows "\<exists>s. setScreenshotSetting key v st
             = Returns (st\<lparr>screenshots := (screenshots st)[selectedIndex st := Some (entry\<lparr>screenshot := s\<rparr>)]\<rparr>)
           \<and> read_path s (split_on (CHR ''.'') key) = Returns v
           \<and> (\<forall>q. parts_ways (split_on (CHR ''.'') key) q \<longrightarrow> read_path s q = read_path (screenshot entry) q)"
proof -
  from assign_path_objects [OF split_on_nonempty assms(2) assms(3), of v]
  obtain s where a: "assign_key (screenshot entry) key v = Returns s"
    and r: "read_path s (split_on (CHR ''.'') key) = Returns v"
    and f: "\<forall>q. parts_ways (split_on (CHR ''.'') key) q \<longrightarrow> read_path s q = read_path (screenshot entry) q"
    unfolding assign_key_path by blast
  from assms(1) a have "setScreenshotSetting key v st
      = Returns (st\<lparr>screenshots := (screenshots st)[selectedIndex st := Some (entry\<lparr>screenshot := s\<rparr>)]\<rparr>)"
    by (simp add: setScreenshotSetting_def)
  with r f show ?thesis by blast
qed

lemma setBackground_assigns:
  assumes "getCurrentScreenshot st = Some entry"
    and "objects_along (background entry) (butlast (split_on (CHR ''.'') key))"
    and "last (split_on (CHR ''.'') key) \<noteq> ''__proto__''"
  shows "\<exists>b. setBackground key v st
             = Returns (st\<lparr>screenshots := (screenshots st)[selectedIndex st := Some (entry\<lparr>background := b\<rparr>)]\<rparr>)
           \<and> read_path b (split_on (CHR ''.'') key) = Returns v
           \<and> (\<forall>q. parts_ways (split_on (CHR ''.'') key) q \<longrightarrow> read_path b q = read_path (background entry) q)"
proof -
  from assign_path_objects [OF split_on_nonempty assms(2) assms(3), of v]
  obtain b where a: "assign_key (background entry) key v = Returns b"
    and r: "read_path b (split_on (CHR ''.'') key) = Returns v"
    and f: "\<forall>q. parts_ways (split_on (CHR ''.'') key) q \<longrightarrow> read_path b q = read_path (background entry) q"
    unfolding assign_key_path by blast
  from assms(1) a have "setBackground key v st
      = Returns (st\<lparr>screenshots := (screenshots st)[selectedIndex st := Some (entry\<lparr>background := b\<rparr>)]\<rparr>)"
    by (simp add: setBackground_def)
  with r f show ?thesis by blast
qed

lemma split_on_first:
  "sep \<notin> set k \<Longrightarrow> split_on sep (k @ sep # rest) = k # split_on sep rest"
  by (induction k) (auto split: list.splits)

text \<open>
  A first component that the object neither has nor inherits reads \<open>undefined\<close>, and the
  next step throws.
\<close>

lemma assign_path_missing:
  assumes "map_of kv k = None" "k \<notin> set object_prototype_names"
  shows "assign_path (JObj kv) (k # k' # ks) v = Throws TypeError"
proof -
  have "assign_path JUndefined (k' # ks) v = Throws TypeError"
    by (cases ks) simp_all
  with assms show ?thesis by simp
qed

lemma setters_throw_on_missing_object:
  assumes "getCurrentScreenshot st = Some entry" "CHR ''.'' \<notin> set k" "map_of kv k = None"
    "k \<notin> set object_prototype_names"
  shows "screenshot entry = JObj kv \<Longrightarrow> setScreenshotSetting (k @ CHR ''.'' # rest) v st = Throws TypeError"
    and "background entry = JObj kv \<Longrightarrow> setBackground (k @ CHR ''.'' # rest) v st = Throws TypeError"
proof -
  obtain k' ks where sp: "split_on (CHR ''.'') rest = k' # ks"
    using split_on_nonempty [of "CHR ''.''" rest] by (cases "split_on (CHR ''.'') rest") auto
  with assms(2) have parts: "split_on (CHR ''.'') (k @ CHR ''.'' # rest) = k # k' # ks"
    by (simp add: split_on_first)
  have "assign_key (JObj kv) (k @ CHR ''.'' # rest) v = Throws TypeError"
    unfolding assign_key_path parts using assms(3,4) by (rule assign_path_missing)
  with assms(1)
  show "screenshot entry = JObj kv \<Longrightarrow> setScreenshotSetting (k @ CHR ''.'' # rest) v st = Throws TypeError"
    and "background entry = JObj kv \<Longrightarrow> setBackground (k @ CHR ''.'' # rest) v st = Throws TypeError"
    by (simp_all add: setScreenshotSetting_def setBackground_def)
qed


text \<open>
  Claim C5, as the program has it. Without an active unit both setters change nothing
  and do not throw. With an active unit, when every component of the path but the last
  names an own property that holds an ordinary object, and the last component is not
  \<open>__proto__\<close>, a setter does not throw: it assigns the value at the end of the path,
  and every path that parts ways with the assigned one reads afterwards what it read
  before, in the settings object as in the rest of the state. The setters create no
  intermediate object: when the first component of a nested path names no property of
  the settings object, neither its own nor one that an object inherits, they throw
  \<open>TypeError\<close>.
\<close>

theorem setters_assign_along_present_objects:
  "(getCurrentScreenshot st = None \<longrightarrow>
      setScreenshotSetting key v st = Returns st \<and> setBackground key v st = Returns st)
   \<and> (\<forall>entry. getCurrentScreenshot st = Some entry
          \<and> objects_along (screenshot entry) (butlast (split_on (CHR ''.'') key))
          \<and> last (split_on (CHR ''.'') key) \<noteq> ''__proto__'' \<longrightarrow>
        (\<exists>s. setScreenshotSetting key v st
               = Returns (st\<lparr>screenshots :=
                       (screenshots st)[selectedIndex st := Some (entry\<lparr>screenshot := s\<rparr>)]\<rparr>)
            \<and> read_path s (split_on (CHR ''.'') key) = Returns v
            \<and> (\<forall>q. parts_ways (split_on (CHR ''.'') key) q \<longrightarrow>
                  read_path s q = read_path (screenshot entry) q)))
   \<and> (\<forall>entry. getCurrentScreenshot st = Some entry
          \<and> objects_along (background entry) (butlast (split_on (CHR ''.'') key))
          \<and> last (split_on (CHR ''.'') key) \<noteq> ''__proto__'' \<longrightarrow>
        (\<exists>b. setBackground key v st
               = Returns (st\<lparr>screenshots :=
                       (screenshots st)[selectedIndex st := Some (entry\<lparr>background := b\<rparr>)]\<rparr>)
            \<and> read_path b (split_on (CHR ''.'') key) = Returns v
            \<and> (\<forall>q. parts_ways (split_on (CHR ''.'') key) q \<longrightarrow>
                  read_path b q = read_path (background entry) q)))
   \<and> (\<forall>entry kv k rest. getCurrentScreenshot st = Some entry \<and> CHR ''.'' \<notin> set k
          \<and> map_of kv k = None \<and> k \<notin> set object_prototype_names
          \<and> screenshot entry = JObj kv \<longrightarrow>
        setScreenshotSetting (k @ CHR ''.'' # rest) v st = Throws TypeError)
   \<and> (\<forall>entry kv k rest. getCurrentScreenshot st = Some entry \<and> CHR ''.'' \<notin> set k
          \<and> map_of kv k = None \<and> k \<notin> set object_prototype_names
          \<and> background entry = JObj kv \<longrightarrow>
        setBackground (k @ CHR ''.'' # rest) v st = Throws TypeError)"
proof (intro conjI allI impI)
  assume "getCurrentScreenshot st = None"
  then show "setScreenshotSetting key v st = Returns st" by (simp add: setScreenshotSetting_def)
next
  assume "getCurrentScreenshot st = None"
  then show "setBackground key v st = Returns st" by (simp add: setBackground_def)
next
  fix entry
  assume "getCurrentScreenshot st = Some entry
          \<and> objects_along (screenshot entry) (butlast (split_on (CHR ''.'') key))
          \<and> last (split_on (CHR ''.'') key) \<noteq> ''__proto__''"
  then have "getCurrentScreenshot st = Some entry"
    "objects_along (screenshot entry) (butlast (split_on (CHR ''.'') key))"
    "last (split_on (CHR ''.'') key) \<noteq> ''__proto__''" by simp_all
  then show "\<exists>s. setScreenshotSetting key v st
               = Returns (st\<lparr>screenshots :=
                       (screenshots st)[selectedIndex st := Some (entry\<lparr>screenshot := s\<rparr>)]\<rparr>)
            \<and> read_path s (split_on (CHR ''.'') key) = Returns v
            \<and> (\<forall>q. parts_ways (split_on (CHR ''.'') key) q \<longrightarrow>
                  read_path s q = read_path (screenshot entry) q)"
    by (rule setScreenshotSetting_assigns)
next
  fix entry
  assume "getCurrentScreenshot st = Some entry
          \<and> objects_along (background entry) (butlast (split_on (CHR ''.'') key))
          \<and> last (split_on (CHR ''.'') key) \<noteq> ''__proto__''"
  then have "getCurrentScreenshot st = Some entry"
    "objects_along (background entry) (butlast (split_on (CHR ''.'') key))"
    "last (split_on (CHR ''.'') key) \<noteq> ''__proto__''" by simp_all
  then show "\<exists>b. setBackground key v st
               = Returns (st\<lparr>screenshots :=
                       (screenshots st)[selectedIndex st := Some (entry\<lparr>background := b\<rparr>)]\<rparr>)
            \<and> read_path b (split_on (CHR ''.'') key) = Returns v
            \<and> (\<forall>q. parts_ways (split_on (CHR ''.'') key) q \<longrightarrow>
                  read_path b q = read_path (background entry) q)"
    by (rule setBackground_assigns)
next
  fix entry kv k rest
  assume "getCurrentScreenshot st = Some entry \<and> CHR ''.'' \<notin> set k
          \<and> map_of kv k = None \<and> k \<notin> set object_prototype_names
          \<and> screenshot entry = JObj kv"
  then have "getCurrentScreenshot st = Some entry" "CHR ''.'' \<notin> set k" "map_of kv k = None"
    "k \<notin> set object_prototype_names" "screenshot entry = JObj kv" by simp_all
  then show "setScreenshotSetting (k @ CHR ''.'' # rest) v st = Throws TypeError"
    by (rule setters_throw_on_missing_object(1))
next
  fix entry kv k rest
  assume "getCurrentScreenshot st = Some entry \<and> CHR ''.'' \<notin> set k
          \<and> map_of kv k = None \<and> k \<notin> set object_prototype_names
          \<and> background entry = JObj kv"
  then have "getCurrentScreenshot st = Some entry" "CHR ''.'' \<notin> set k" "map_of kv k = None"
    "k \<notin> set object_prototype_names" "background entry = JObj kv" by simp_all
  then show "setBackground (k @ CHR ''.'' # rest) v st = Throws TypeError"
    by (rule setters_throw_on_missing_object(2))
qed

lemma object_state_current:
  "getCurrentScreenshot (object_state settings) =
     Some \<lparr>unit_image = Some tall_image, background = background_object,
            screenshot = settings, unit_text = defaults_text_init, localizedImages = []\<rparr>"
  by (simp add: getCurrentScreenshot_def object_state_def array_get_def)

lemma no_unit_current: "getCurrentScreenshot ((object_state settings)\<lparr>screenshots := []\<rparr>) = None"
  by (simp add: getCurrentScreenshot_def)

lemma shadow_blur_parts: "split_on (CHR ''.'') ''shadow.blur'' = [''shadow'', ''blur'']"
  by simp

lemma shadow_present: "objects_along screenshot_object [''shadow'']"
  by (simp add: screenshot_object_def)

lemma shadow_not_inherited: "''shadow'' \<notin> set object_prototype_names"
  by (simp add: object_prototype_names_def)

theorem setters_assign_along_present_objects_witness:
  "getCurrentScreenshot ((object_state screenshot_object)\<lparr>screenshots := []\<rparr>) = None
   \<and> setScreenshotSetting ''shadow.blur'' (JNum 10) ((object_state screenshot_object)\<lparr>screenshots := []\<rparr>)
       = Returns ((object_state screenshot_object)\<lparr>screenshots := []\<rparr>)
   \<and> objects_along screenshot_object (butlast (split_on (CHR ''.'') ''shadow.blur''))
   \<and> last (split_on (CHR ''.'') ''shadow.blur'') = ''blur''
   \<and> parts_ways (split_on (CHR ''.'') ''shadow.blur'') [''shadow'', ''opacity'']
   \<and> read_path screenshot_object [''shadow'', ''opacity''] = Returns (JNum 30)
   \<and> (\<exists>s. setScreenshotSetting ''shadow.blur'' (JNum 10) (object_state screenshot_object)
            = Returns ((object_state screenshot_object)\<lparr>screenshots :=
                 (screenshots (object_state screenshot_object))[0 := Some
                    \<lparr>unit_image = Some tall_image, background = background_object,
                      screenshot = s, unit_text = defaults_text_init, localizedImages = []\<rparr>]\<rparr>)
          \<and> read_path s [''shadow'', ''blur''] = Returns (JNum 10)
          \<and> read_path s [''shadow'', ''opacity''] = Returns (JNum 30))
   \<and> map_of [(''scale'', JNum 70)] ''shadow'' = None
   \<and> ''shadow'' \<notin> set object_prototype_names
   \<and> setScreenshotSetting ''shadow.blur'' (JNum 10) (object_state (JObj [(''scale'', JNum 70)]))
       = Throws TypeError"
proof -
  note thm1 = setters_assign_along_present_objects
    [of "(object_state screenshot_object)\<lparr>screenshots := []\<rparr>" "''shadow.blur''" "JNum 10"]
  note thm2 = setters_assign_along_present_objects
    [of "object_state screenshot_object" "''shadow.blur''" "JNum 10"]
  note thm3 = setters_assign_along_present_objects
    [of "object_state (JObj [(''scale'', JNum 70)])" "''shadow.blur''" "JNum 10"]
  have along: "objects_along screenshot_object (butlast (split_on (CHR ''.'') ''shadow.blur''))"
    by (simp add: screenshot_object_def)
  have lst: "last (split_on (CHR ''.'') ''shadow.blur'') = ''blur''" by simp
  have pw: "parts_ways (split_on (CHR ''.'') ''shadow.blur'') [''shadow'', ''opacity'']" by simp
  have old: "read_path screenshot_object [''shadow'', ''opacity''] = Returns (JNum 30)"
    by (simp add: screenshot_object_def)
  have a: "setScreenshotSetting ''shadow.blur'' (JNum 10) ((object_state screenshot_object)\<lparr>screenshots := []\<rparr>)
       = Returns ((object_state screenshot_object)\<lparr>screenshots := []\<rparr>)"
    using thm1 [THEN conjunct1] no_unit_current by simp
  have cur: "getCurrentScreenshot (object_state screenshot_object) = Some
            \<lparr>unit_image = Some tall_image, background = background_object,
              screenshot = screenshot_object, unit_text = defaults_text_init, localizedImages = []\<rparr>
       \<and> objects_along (screenshot \<lparr>unit_image = Some tall_image, background = background_object,
              screenshot = screenshot_object, unit_text = defaults_text_init, localizedImages = []\<rparr>)
            (butlast (split_on (CHR ''.'') ''shadow.blur''))
       \<and> last (split_on (CHR ''.'') ''shadow.blur'') \<noteq> ''__proto__''"
    using object_state_current [of screenshot_object] along by simp
  from thm2 [THEN conjunct2, THEN conjunct1, THEN spec, THEN mp, OF cur]
  obtain s where s1: "setScreenshotSetting ''shadow.blur'' (JNum 10) (object_state screenshot_object)
     = Returns ((object_state screenshot_object)\<lparr>screenshots :=
          (screenshots (object_state screenshot_object))[selectedIndex (object_state screenshot_object) := Some
            (\<lparr>unit_image = Some tall_image, background = background_object,
              screenshot = screenshot_object, unit_text = defaults_text_init, localizedImages = []\<rparr>
              \<lparr>screenshot := s\<rparr>)]\<rparr>)"
    and s2: "read_path s (split_on (CHR ''.'') ''shadow.blur'') = Returns (JNum 10)"
    and s3: "\<forall>q. parts_ways (split_on (CHR ''.'') ''shadow.blur'') q \<longrightarrow>
               read_path s q = read_path (screenshot \<lparr>unit_image = Some tall_image,
                 background = background_object, screenshot = screenshot_object,
                 unit_text = defaults_text_init, localizedImages = []\<rparr>) q"
    by blast
  from s3 pw old have s4: "read_path s [''shadow'', ''opacity''] = Returns (JNum 30)"
    by (metis screenshot_entry.select_convs(3))
  from s1 s2 s4 have b: "\<exists>s. setScreenshotSetting ''shadow.blur'' (JNum 10) (object_state screenshot_object)
            = Returns ((object_state screenshot_object)\<lparr>screenshots :=
                 (screenshots (object_state screenshot_object))[0 := Some
                    \<lparr>unit_image = Some tall_image, background = background_object,
                      screenshot = s, unit_text = defaults_text_init, localizedImages = []\<rparr>]\<rparr>)
          \<and> read_path s [''shadow'', ''blur''] = Returns (JNum 10)
          \<and> read_path s [''shadow'', ''opacity''] = Returns (JNum 30)"
    by (auto simp: object_state_def)
  have m: "map_of [(''scale'', JNum 70)] ''shadow'' = None" by simp
  have pre: "getCurrentScreenshot (object_state (JObj [(''scale'', JNum 70)])) = Some
            \<lparr>unit_image = Some tall_image, background = background_object,
              screenshot = JObj [(''scale'', JNum 70)], unit_text = defaults_text_init,
              localizedImages = []\<rparr>
       \<and> CHR ''.'' \<notin> set ''shadow'' \<and> map_of [(''scale'', JNum 70)] ''shadow'' = None
       \<and> ''shadow'' \<notin> set object_prototype_names
       \<and> screenshot \<lparr>unit_image = Some tall_image, background = background_object,
              screenshot = JObj [(''scale'', JNum 70)], unit_text = defaults_text_init,
              localizedImages = []\<rparr> = JObj [(''scale'', JNum 70)]"
    using object_state_current [of "JObj [(''scale'', JNum 70)]"] shadow_not_inherited by simp
  from thm3 [THEN conjunct2, THEN conjunct2, THEN conjunct2, THEN conjunct1,
      THEN spec, THEN spec, THEN spec, THEN spec, THEN mp, OF pre, of "''blur''"]
  have c: "setScreenshotSetting (''shadow'' @ CHR ''.'' # ''blur'') (JNum 10)
             (object_state (JObj [(''scale'', JNum 70)])) = Throws TypeError" .
  from a b c m along lst pw old no_unit_current shadow_not_inherited show ?thesis by simp
qed

theorem setScreenshotSetting_missing_object_counterexample:
  "getCurrentScreenshot (object_state screenshot_object_without_shadow)
     = Some \<lparr>unit_image = Some tall_image, background = background_object,
              screenshot = screenshot_object_without_shadow, unit_text = defaults_text_init,
              localizedImages = []\<rparr>
   \<and> js_get screenshot_object_without_shadow ''shadow'' = Returns JUndefined
   \<and> setScreenshotSetting ''shadow.blur'' (JNum 10) (object_state screenshot_object_without_shadow)
       = Throws TypeError"
  by (simp add: object_state_current setScreenshotSetting_def assign_key_def
      screenshot_object_without_shadow_def object_prototype_names_def)

section \<open>Removing a project language\<close>

lemma indexOf_None_iff: "indexOf xs a = None \<longleftrightarrow> a \<notin> set xs"
  by (induction xs) auto

lemma indexOf_splice1: "indexOf xs a = Some i \<Longrightarrow> splice1 i xs = remove1 a xs"
proof (induction xs arbitrary: i)
  case Nil
  then show ?case by simp
next
  case (Cons b bs)
  show ?case
  proof (cases "b = a")
    case True
    with Cons.prems show ?thesis by (simp add: splice1_def)
  next
    case False
    with Cons.prems obtain j where j: "indexOf bs a = Some j" "i = Suc j" by auto
    from Cons.IH [OF j(1)] have "take j bs @ drop (Suc j) bs = remove1 a bs"
      by (simp add: splice1_def)
    with False j show ?thesis by (simp add: splice1_def)
  qed
qed

lemma purge_headline_result:
  assumes "purge_headline lang t = Inr t'"
  shows "t' = t\<lparr>headlineLanguages := remove1 lang (headlineLanguages t),
               headlines := (if lang \<in> set (headlineLanguages t)
                             then map_option (AList.delete lang) (headlines t) else headlines t)\<rparr>"
proof (cases "indexOf (headlineLanguages t) lang")
  case None
  then have "lang \<notin> set (headlineLanguages t)" by (simp add: indexOf_None_iff)
  with None assms show ?thesis by (simp add: purge_headline_def remove1_idem)
next
  case (Some i)
  then have mem: "lang \<in> set (headlineLanguages t)"
    using indexOf_None_iff [of "headlineLanguages t" lang] by auto
  from Some have "splice1 i (headlineLanguages t) = remove1 lang (headlineLanguages t)"
    by (rule indexOf_splice1)
  with Some mem assms show ?thesis
    by (auto simp: purge_headline_def split: option.splits)
qed

lemma purge_subheadline_result:
  assumes "purge_subheadline lang t = Inr t'"
  shows "t' = t\<lparr>subheadlineLanguages := remove1 lang (subheadlineLanguages t),
               subheadlines := (if lang \<in> set (subheadlineLanguages t)
                                then map_option (AList.delete lang) (subheadlines t) else subheadlines t)\<rparr>"
proof (cases "indexOf (subheadlineLanguages t) lang")
  case None
  then have "lang \<notin> set (subheadlineLanguages t)" by (simp add: indexOf_None_iff)
  with None assms show ?thesis by (simp add: purge_subheadline_def remove1_idem)
next
  case (Some i)
  then have mem: "lang \<in> set (subheadlineLanguages t)"
    using indexOf_None_iff [of "subheadlineLanguages t" lang] by auto
  from Some have "splice1 i (subheadlineLanguages t) = remove1 lang (subheadlineLanguages t)"
    by (rule indexOf_splice1)
  with Some mem assms show ?thesis
    by (auto simp: purge_subheadline_def split: option.splits)
qed

lemma purge_language_result:
  assumes "purge_language lang t = Inr t'"
  shows "text_without lang t t'"
    and "currentHeadlineLang t' = currentHeadlineLang t"
    and "currentSubheadlineLang t' = currentSubheadlineLang t"
proof -
  from assms obtain t1 where 1: "purge_headline lang t = Inr t1" and 2: "purge_subheadline lang t1 = Inr t'"
    by (auto simp: purge_language_def split: sum.splits)
  note r1 = purge_headline_result [OF 1]
  note r2 = purge_subheadline_result [OF 2]
  have f1: "subheadlineLanguages t1 = subheadlineLanguages t" "subheadlines t1 = subheadlines t"
    "currentHeadlineLang t1 = currentHeadlineLang t" "currentSubheadlineLang t1 = currentSubheadlineLang t"
    "headlineLanguages t1 = remove1 lang (headlineLanguages t)"
    "headlines t1 = (if lang \<in> set (headlineLanguages t)
                             then map_option (AList.delete lang) (headlines t) else headlines t)"
    by (subst r1, simp)+
  have f2: "headlineLanguages t' = headlineLanguages t1" "headlines t' = headlines t1"
    "currentHeadlineLang t' = currentHeadlineLang t1" "currentSubheadlineLang t' = currentSubheadlineLang t1"
    "subheadlineLanguages t' = remove1 lang (subheadlineLanguages t1)"
    "subheadlines t' = (if lang \<in> set (subheadlineLanguages t1)
                       then map_option (AList.delete lang) (subheadlines t1) else subheadlines t1)"
    by (subst r2, simp)+
  from f1 f2 show "text_without lang t t'" by (simp add: text_without_def)
  from f1 f2 show "currentHeadlineLang t' = currentHeadlineLang t" by simp
  from f1 f2 show "currentSubheadlineLang t' = currentSubheadlineLang t" by simp
qed

lemma purge_language_total:
  assumes "maps_present t"
  shows "\<exists>t'. purge_language lang t = Inr t'"
  using assms
  by (auto simp: purge_language_def purge_headline_def purge_subheadline_def maps_present_def
      split: option.splits sum.splits)


lemma repoint_language_fields:
  "currentHeadlineLang (repoint_language lang first t)
     = (if currentHeadlineLang t = Some lang then Some first else currentHeadlineLang t)"
  "currentSubheadlineLang (repoint_language lang first t)
     = (if currentSubheadlineLang t = Some lang then Some first else currentSubheadlineLang t)"
  "headlineLanguages (repoint_language lang first t) = headlineLanguages t"
  "subheadlineLanguages (repoint_language lang first t) = subheadlineLanguages t"
  "headlines (repoint_language lang first t) = headlines t"
  "subheadlines (repoint_language lang first t) = subheadlines t"
  by (simp_all add: repoint_language_def Let_def)

lemma text_without_repoint:
  "text_without lang t t' \<Longrightarrow> text_without lang t (repoint_language lang first t')"
  by (simp add: text_without_def repoint_language_fields)

lemma remove_language_from_entry_result:
  assumes "remove_language_from_entry lang first e = Inr e'"
  shows "entry_without lang first False e e'"
proof -
  from assms obtain t where p: "purge_language lang (unit_text e) = Inr t"
    and e': "e' = e\<lparr>unit_text := repoint_language lang first t\<rparr>"
    by (auto simp: remove_language_from_entry_def split: sum.splits)
  note r = purge_language_result [OF p]
  from r(1) have "text_without lang (unit_text e) (repoint_language lang first t)"
    by (rule text_without_repoint)
  with e' r(2) r(3) show ?thesis
    by (simp add: entry_without_def repoint_language_fields)
qed

text \<open>An entry after the global switch.\<close>

lemma remove_language_from_switched_entry:
  assumes "remove_language_from_entry lang first
             (e\<lparr>unit_text := (unit_text e)\<lparr>currentHeadlineLang := Some first,
                                            currentSubheadlineLang := Some first\<rparr>\<rparr>) = Inr e'"
  shows "entry_without lang first True e e'"
proof -
  let ?e = "e\<lparr>unit_text := (unit_text e)\<lparr>currentHeadlineLang := Some first,
                                            currentSubheadlineLang := Some first\<rparr>\<rparr>"
  from assms have "entry_without lang first False ?e e'"
    by (rule remove_language_from_entry_result)
  then show ?thesis by (auto simp: entry_without_def text_without_def)
qed

lemma forEach_entry_result:
  "forEach_entry f xs = Inr ys \<Longrightarrow> list_all2 (rel_option (\<lambda>x y. f x = Inr y)) xs ys"
proof (induction f xs arbitrary: ys rule: forEach_entry.induct)
  case (1 f)
  then show ?case by simp
next
  case (2 f xs)
  then show ?case by (auto split: sum.splits)
next
  case (3 f x xs)
  then show ?case by (auto split: sum.splits)
qed

lemma forEach_entry_total:
  "list_all (\<lambda>slot. case slot of None \<Rightarrow> True | Some x \<Rightarrow> \<exists>y. f x = Inr y) xs \<Longrightarrow>
   \<exists>ys. forEach_entry f xs = Inr ys"
proof (induction f xs rule: forEach_entry.induct)
  case (1 f)
  then show ?case by simp
next
  case (2 f xs)
  then show ?case by auto
next
  case (3 f x xs)
  then show ?case by auto
qed

lemma remove_language_from_entry_total:
  "maps_present (unit_text e) \<Longrightarrow> \<exists>e'. remove_language_from_entry lang first e = Inr e'"
  using purge_language_total [of "unit_text e" lang]
  by (auto simp: remove_language_from_entry_def)


lemma switched_screenshots:
  "screenshots (switchGlobalLanguage first st) =
     map (map_option (\<lambda>e. e\<lparr>unit_text := (unit_text e)\<lparr>currentHeadlineLang := Some first,
                                                        currentSubheadlineLang := Some first\<rparr>\<rparr>))
         (screenshots st)"
  by (simp add: switchGlobalLanguage_def)

lemma entry_without_not_shown:
  "entry_without lang first switched e e' \<Longrightarrow> first \<noteq> lang \<Longrightarrow> \<not> shows_language lang (Some e')"
  by (auto simp: entry_without_def shows_language_def)

lemma list_all2_rel_option_right:
  assumes "list_all2 (rel_option R) xs ys" and "\<And>x y. R x y \<Longrightarrow> Q (Some y)" and "Q None"
  shows "list_all Q ys"
  using assms(1)
proof (induction rule: list_all2_induct)
  case Nil
  then show ?case by simp
next
  case (Cons x xs y ys)
  from Cons(1) assms(2) assms(3) have "Q y" by (cases x; cases y) auto
  with Cons show ?case by simp
qed

lemma removeProjectLanguage_single:
  "length (projectLanguages st) \<le> 1 \<Longrightarrow> removeProjectLanguage lang st = Inr st"
  by (simp add: removeProjectLanguage_def)

lemma removeProjectLanguage_unfold:
  assumes "\<not> length (projectLanguages st) \<le> 1"
    and "indexOf (projectLanguages st) lang = Some index"
    and "splice1 index (projectLanguages st) = first # others"
  shows "removeProjectLanguage lang st =
     (case forEach_entry (remove_language_from_entry lang first)
             (screenshots (if currentLanguage st = lang
                           then switchGlobalLanguage first (st\<lparr>projectLanguages := first # others\<rparr>)
                           else st\<lparr>projectLanguages := first # others\<rparr>)) of
        Inl e \<Rightarrow> Inl e
      | Inr entries \<Rightarrow>
          (case purge_language lang
                  (defaults_text (if currentLanguage st = lang
                           then switchGlobalLanguage first (st\<lparr>projectLanguages := first # others\<rparr>)
                           else st\<lparr>projectLanguages := first # others\<rparr>)) of
             Inl e \<Rightarrow> Inl e
           | Inr d \<Rightarrow>
               Inr ((if currentLanguage st = lang
                     then switchGlobalLanguage first (st\<lparr>projectLanguages := first # others\<rparr>)
                     else st\<lparr>projectLanguages := first # others\<rparr>)
                    \<lparr>screenshots := entries, defaults_text := d\<rparr>)))"
  using assms by (simp add: removeProjectLanguage_def Let_def)

lemma removeProjectLanguage_removed:
  assumes len: "2 \<le> length (projectLanguages st)"
    and mem: "lang \<in> set (projectLanguages st)"
    and dist: "distinct (projectLanguages st)"
    and run: "removeProjectLanguage lang st = Inr st'"
  shows "\<exists>first others. projectLanguages st' = first # others
         \<and> projectLanguages st' = remove1 lang (projectLanguages st)
         \<and> lang \<notin> set (projectLanguages st')
         \<and> currentLanguage st' = (if currentLanguage st = lang then first else currentLanguage st)
         \<and> list_all2 (rel_option (entry_without lang first (currentLanguage st = lang)))
              (screenshots st) (screenshots st')
         \<and> list_all (\<lambda>slot. \<not> shows_language lang slot) (screenshots st')
         \<and> text_without lang (defaults_text st) (defaults_text st')"
proof -
  let ?pl = "projectLanguages st"
  from mem obtain index where idx: "indexOf ?pl lang = Some index"
    using indexOf_None_iff [of ?pl lang] by (cases "indexOf ?pl lang") auto
  then have sp: "splice1 index ?pl = remove1 lang ?pl" by (rule indexOf_splice1)
  from mem have "length (remove1 lang ?pl) = length ?pl - 1" by (simp add: length_remove1)
  with len have "remove1 lang ?pl \<noteq> []" by auto
  then obtain first others where fo: "remove1 lang ?pl = first # others"
    by (cases "remove1 lang ?pl") auto
  from dist have notin: "lang \<notin> set (remove1 lang ?pl)" by simp
  with fo have neq: "first \<noteq> lang" by auto
  let ?st1 = "st\<lparr>projectLanguages := first # others\<rparr>"
  let ?st2 = "if currentLanguage st = lang then switchGlobalLanguage first ?st1 else ?st1"
  let ?rm = "remove_language_from_entry lang first"
  from len have notle: "\<not> length ?pl \<le> 1" by simp
  from sp fo have sp': "splice1 index ?pl = first # others" by simp
  from run have run2: "(case forEach_entry ?rm (screenshots ?st2) of
                 Inl e \<Rightarrow> Inl e
               | Inr entries \<Rightarrow>
                   (case purge_language lang (defaults_text ?st2) of
                      Inl e \<Rightarrow> Inl e
                    | Inr d \<Rightarrow> Inr (?st2\<lparr>screenshots := entries, defaults_text := d\<rparr>))) = Inr st'"
    unfolding removeProjectLanguage_unfold [OF notle idx sp'] .
  then obtain entries d where each: "forEach_entry ?rm (screenshots ?st2) = Inr entries"
    and pd: "purge_language lang (defaults_text ?st2) = Inr d"
    and st': "st' = ?st2\<lparr>screenshots := entries, defaults_text := d\<rparr>"
    by (auto split: sum.splits)
  have dt: "defaults_text ?st2 = defaults_text st" by (simp add: switchGlobalLanguage_def)
  have pl2: "projectLanguages ?st2 = first # others" by (simp add: switchGlobalLanguage_def)
  have cl2: "currentLanguage ?st2 = (if currentLanguage st = lang then first else currentLanguage st)"
    by (simp add: switchGlobalLanguage_def)
  from each have all2: "list_all2 (rel_option (\<lambda>x y. ?rm x = Inr y)) (screenshots ?st2) entries"
    by (rule forEach_entry_result)
  have entries: "list_all2 (rel_option (entry_without lang first (currentLanguage st = lang)))
              (screenshots st) entries"
  proof (cases "currentLanguage st = lang")
    case True
    with all2 have "list_all2 (rel_option (\<lambda>x y. ?rm x = Inr y))
        (map (map_option (\<lambda>e. e\<lparr>unit_text := (unit_text e)\<lparr>currentHeadlineLang := Some first,
                                                        currentSubheadlineLang := Some first\<rparr>\<rparr>))
             (screenshots st)) entries"
      by (simp add: switched_screenshots)
    then have "list_all2 (rel_option (\<lambda>x y. ?rm (x\<lparr>unit_text := (unit_text x)\<lparr>currentHeadlineLang := Some first,
                                                        currentSubheadlineLang := Some first\<rparr>\<rparr>) = Inr y))
             (screenshots st) entries"
      by (simp add: list_all2_map1 option.rel_map)
    then have "list_all2 (rel_option (entry_without lang first True)) (screenshots st) entries"
      by (rule list_all2_mono) (auto elim!: option.rel_mono_strong intro: remove_language_from_switched_entry)
    with True show ?thesis by simp
  next
    case False
    with all2 have "list_all2 (rel_option (\<lambda>x y. ?rm x = Inr y)) (screenshots st) entries" by simp
    then have "list_all2 (rel_option (entry_without lang first False)) (screenshots st) entries"
      by (rule list_all2_mono) (auto elim!: option.rel_mono_strong intro: remove_language_from_entry_result)
    with False show ?thesis by simp
  qed
  from entries have shown: "list_all (\<lambda>slot. \<not> shows_language lang slot) entries"
  proof (rule list_all2_rel_option_right)
    fix x y
    assume "entry_without lang first (currentLanguage st = lang) x y"
    then show "\<not> shows_language lang (Some y)" using neq by (rule entry_without_not_shown)
  next
    show "\<not> shows_language lang None" by (simp add: shows_language_def)
  qed
  from pd dt have "text_without lang (defaults_text st) d"
    using purge_language_result(1) [of lang "defaults_text st" d] by simp
  with st' pl2 cl2 fo notin entries shown show ?thesis by auto
qed

text \<open>
  The changes that the removal makes to \<open>state\<close> are defined when every unit and the
  defaults have both language maps. This is a fact about those changes alone: the
  refresh of the page and the save, which \<open>removeProjectLanguage\<close> here leaves out, are
  further calls of the program.
\<close>

lemma removeProjectLanguage_total:
  assumes len: "2 \<le> length (projectLanguages st)"
    and mem: "lang \<in> set (projectLanguages st)"
    and present: "list_all entry_maps_present (screenshots st)" "maps_present (defaults_text st)"
  shows "\<exists>st'. removeProjectLanguage lang st = Inr st'"
proof -
  let ?pl = "projectLanguages st"
  from mem obtain index where idx: "indexOf ?pl lang = Some index"
    using indexOf_None_iff [of ?pl lang] by (cases "indexOf ?pl lang") auto
  then have sp: "splice1 index ?pl = remove1 lang ?pl" by (rule indexOf_splice1)
  from mem have "length (remove1 lang ?pl) = length ?pl - 1" by (simp add: length_remove1)
  with len have "remove1 lang ?pl \<noteq> []" by auto
  then obtain first others where fo: "remove1 lang ?pl = first # others"
    by (cases "remove1 lang ?pl") auto
  let ?st1 = "st\<lparr>projectLanguages := first # others\<rparr>"
  let ?st2 = "if currentLanguage st = lang then switchGlobalLanguage first ?st1 else ?st1"
  let ?rm = "remove_language_from_entry lang first"
  have present2: "list_all entry_maps_present (screenshots ?st2)"
    using present(1)
    by (auto simp: switchGlobalLanguage_def list_all_iff entry_maps_present_def maps_present_def
        split: option.splits)
  have "\<exists>y. ?rm x = Inr y" if "Some x \<in> set (screenshots ?st2)" for x
  proof -
    from present2 that have "maps_present (unit_text x)"
      by (auto simp: list_all_iff entry_maps_present_def)
    then show ?thesis by (rule remove_language_from_entry_total)
  qed
  then have "list_all (\<lambda>slot. case slot of None \<Rightarrow> True | Some x \<Rightarrow> \<exists>y. ?rm x = Inr y) (screenshots ?st2)"
    unfolding list_all_iff by (auto split: option.splits)
  then obtain entries where each: "forEach_entry ?rm (screenshots ?st2) = Inr entries"
    using forEach_entry_total by blast
  have "defaults_text ?st2 = defaults_text st" by (simp add: switchGlobalLanguage_def)
  with present(2) obtain d where pd: "purge_language lang (defaults_text ?st2) = Inr d"
    using purge_language_total [of "defaults_text st" lang] by auto
  from len have notle: "\<not> length ?pl \<le> 1" by simp
  from sp fo have sp': "splice1 index ?pl = first # others" by simp
  from each pd
  have "removeProjectLanguage lang st = Inr (?st2\<lparr>screenshots := entries, defaults_text := d\<rparr>)"
    unfolding removeProjectLanguage_unfold [OF notle idx sp'] by simp
  then show ?thesis by blast
qed


text \<open>
  Claim C4, as the program has it. Removing a language is a no-op when the project has
  at most one language. Otherwise, for a language of the project, the list of the
  project's languages holding no language twice, whenever the removal runs to its end
  without throwing: the language is struck from the project's list; a global language
  that was the removed one becomes the new first language, and then every unit shows
  that first language; a unit that showed the removed language shows the first
  language; no unit shows the removed language afterwards; in every unit and in the
  defaults the first occurrence of the language is struck from the headline and the
  subheadline language list, and its key is deleted from the headline or subheadline map
  when the corresponding list named it. The localized images of a unit are not touched, and a key of a map whose
  list did not name the language stays. When the removal throws is not part of the
  statement.
\<close>

theorem removeProjectLanguage_text_maps:
  "(length (projectLanguages st) \<le> 1 \<longrightarrow> removeProjectLanguage lang st = Inr st)
   \<and> (2 \<le> length (projectLanguages st) \<and> lang \<in> set (projectLanguages st)
        \<and> distinct (projectLanguages st) \<and> removeProjectLanguage lang st = Inr st' \<longrightarrow>
      (\<exists>first others. projectLanguages st' = first # others
         \<and> projectLanguages st' = remove1 lang (projectLanguages st)
         \<and> lang \<notin> set (projectLanguages st')
         \<and> currentLanguage st' = (if currentLanguage st = lang then first else currentLanguage st)
         \<and> list_all2 (rel_option (entry_without lang first (currentLanguage st = lang)))
              (screenshots st) (screenshots st')
         \<and> list_all (\<lambda>slot. \<not> shows_language lang slot) (screenshots st')
         \<and> text_without lang (defaults_text st) (defaults_text st')))"
proof (intro conjI impI)
  assume "length (projectLanguages st) \<le> 1"
  then show "removeProjectLanguage lang st = Inr st" by (rule removeProjectLanguage_single)
next
  assume "2 \<le> length (projectLanguages st) \<and> lang \<in> set (projectLanguages st)
        \<and> distinct (projectLanguages st) \<and> removeProjectLanguage lang st = Inr st'"
  then have "2 \<le> length (projectLanguages st)" "lang \<in> set (projectLanguages st)"
    "distinct (projectLanguages st)" "removeProjectLanguage lang st = Inr st'" by simp_all
  then show "\<exists>first others. projectLanguages st' = first # others
         \<and> projectLanguages st' = remove1 lang (projectLanguages st)
         \<and> lang \<notin> set (projectLanguages st')
         \<and> currentLanguage st' = (if currentLanguage st = lang then first else currentLanguage st)
         \<and> list_all2 (rel_option (entry_without lang first (currentLanguage st = lang)))
              (screenshots st) (screenshots st')
         \<and> list_all (\<lambda>slot. \<not> shows_language lang slot) (screenshots st')
         \<and> text_without lang (defaults_text st) (defaults_text st')"
    by (rule removeProjectLanguage_removed)
qed

lemma bilingual_removal:
  "removeProjectLanguage ''de'' bilingual_state = Inr bilingual_state_after"
  by (simp add: removeProjectLanguage_def bilingual_state_def bilingual_state_after_def state_with_def
      splice1_def switchGlobalLanguage_def remove_language_from_entry_def purge_language_def
      purge_headline_def purge_subheadline_def repoint_language_def
      entry_listing_german_def entry_not_listing_german_def sample_entry_def bilingual_text_def
      english_text_def defaults_text_init_def AList.delete_eq Let_def)

theorem removeProjectLanguage_text_maps_witness:
  "length (projectLanguages (state_with [Some sample_entry])) \<le> 1
   \<and> removeProjectLanguage ''en'' (state_with [Some sample_entry]) = Inr (state_with [Some sample_entry])
   \<and> 2 \<le> length (projectLanguages bilingual_state)
   \<and> ''de'' \<in> set (projectLanguages bilingual_state)
   \<and> distinct (projectLanguages bilingual_state)
   \<and> removeProjectLanguage ''de'' bilingual_state = Inr bilingual_state_after
   \<and> projectLanguages bilingual_state_after = [''en'']
   \<and> currentLanguage bilingual_state_after = ''en''
   \<and> list_all2 (rel_option (entry_without ''de'' ''en'' True))
        (screenshots bilingual_state) (screenshots bilingual_state_after)
   \<and> text_without ''de'' (defaults_text bilingual_state) (defaults_text bilingual_state_after)"
proof -
  have one: "length (projectLanguages (state_with [Some sample_entry])) \<le> 1"
    by (simp add: state_with_def)
  have pl: "projectLanguages bilingual_state = [''en'', ''de'']"
    and cur: "currentLanguage bilingual_state = ''de''"
    by (simp_all add: bilingual_state_def)
  have after: "projectLanguages bilingual_state_after = [''en'']"
    by (simp add: bilingual_state_after_def state_with_def)
  from pl have pre: "2 \<le> length (projectLanguages bilingual_state) \<and> ''de'' \<in> set (projectLanguages bilingual_state)
        \<and> distinct (projectLanguages bilingual_state)
        \<and> removeProjectLanguage ''de'' bilingual_state = Inr bilingual_state_after"
    using bilingual_removal by simp
  note main = removeProjectLanguage_text_maps
  from main [of "state_with [Some sample_entry]" "''en''", THEN conjunct1] one
  have a: "removeProjectLanguage ''en'' (state_with [Some sample_entry]) = Inr (state_with [Some sample_entry])"
    by blast
  from main [of bilingual_state "''de''" bilingual_state_after, THEN conjunct2, THEN mp, OF pre]
  obtain first others where fo: "projectLanguages bilingual_state_after = first # others"
    and c: "currentLanguage bilingual_state_after
             = (if currentLanguage bilingual_state = ''de'' then first else currentLanguage bilingual_state)"
    and l: "list_all2 (rel_option (entry_without ''de'' first (currentLanguage bilingual_state = ''de'')))
              (screenshots bilingual_state) (screenshots bilingual_state_after)"
    and d: "text_without ''de'' (defaults_text bilingual_state) (defaults_text bilingual_state_after)"
    by blast
  from fo after have first: "first = ''en''" by simp
  from c l cur first have "currentLanguage bilingual_state_after = ''en''"
    "list_all2 (rel_option (entry_without ''de'' ''en'' True))
        (screenshots bilingual_state) (screenshots bilingual_state_after)" by simp_all
  with one a pre after d show ?thesis by blast
qed

theorem removeProjectLanguage_leaves_entries_counterexample:
  "removeProjectLanguage ''de'' bilingual_state = Inr bilingual_state_after
   \<and> projectLanguages bilingual_state_after = [''en'']
   \<and> screenshots bilingual_state_after
       = [Some (entry_listing_german\<lparr>unit_text := english_text\<rparr>), Some entry_not_listing_german]
   \<and> map_of (localizedImages (entry_listing_german\<lparr>unit_text := english_text\<rparr>)) ''de'' = Some wide_image
   \<and> map_of (the (headlines (unit_text entry_not_listing_german))) ''de'' = Some ''Hallo''"
  using bilingual_removal
  by (simp add: bilingual_state_after_def state_with_def entry_listing_german_def
      entry_not_listing_german_def)


end
